theory Spec2Isabelle
  imports Complex_Main
begin

section \<open>The racing-game car of task-03-racing-game/car.py\<close>

text \<open>
  The car lives on a track given by three aligned arrays (\<open>track[0]\<close> the x samples,
  \<open>track[1]\<close> the lower and \<open>track[2]\<close> the upper boundary). Every step senses the
  boundaries along four rays, asks an acceleration function for an acceleration and
  integrates the motion, rolling back a move that leaves the track.

  Numbers: the arrays of the source hold float64 values. They are modelled as
  \<^typ>\<open>real\<close>: rounding, infinities and NaN are outside this model. Exceptions of
  Python and numpy are values of the type \<open>error\<close>.
\<close>

subsection \<open>Vectors and the numpy operations the source calls\<close>

datatype error = ValueError | IndexError

type_synonym vec2 = "real \<times> real"

definition vadd :: "vec2 \<Rightarrow> vec2 \<Rightarrow> vec2" where
  "vadd a b = (fst a + fst b, snd a + snd b)"

definition zeros2 :: vec2 where
  "zeros2 = (0, 0)"

text \<open>\<open>np.linalg.norm\<close> of a vector of two components.\<close>

definition norm2 :: "vec2 \<Rightarrow> real" where
  "norm2 v = sqrt ((fst v)\<^sup>2 + (snd v)\<^sup>2)"

text \<open>
  \<open>np.interp(x, xp, fp)\<close>: piecewise linear interpolation through the points
  \<open>(xp[j], fp[j])\<close>, with \<open>fp[0]\<close> to the left of \<open>xp[0]\<close> and \<open>fp[-1]\<close> from \<open>xp[-1]\<close>
  on; on the segment \<open>xp[j] \<le> x < xp[j+1]\<close> the value is
  \<open>(fp[j+1] - fp[j]) / (xp[j+1] - xp[j]) * (x - xp[j]) + fp[j]\<close>. numpy raises
  ValueError for an empty \<open>xp\<close> and for arrays of different lengths. It does not check that
  \<open>xp\<close> increases and documents the result as meaningless when it does not; the segment
  search below is the left-to-right one, which finds numpy's segment whenever \<open>xp\<close>
  increases.
\<close>

fun interp_scan :: "real \<Rightarrow> (real \<times> real) list \<Rightarrow> real" where
  "interp_scan x [] = 0"
| "interp_scan x [(x0, y0)] = y0"
| "interp_scan x ((x0, y0) # (x1, y1) # ps) =
     (if x < x1 then (y1 - y0) / (x1 - x0) * (x - x0) + y0
      else interp_scan x ((x1, y1) # ps))"

definition np_interp :: "real \<Rightarrow> real list \<Rightarrow> real list \<Rightarrow> error + real" where
  "np_interp x xp fp =
     (if xp = [] then Inl ValueError
      else if length fp \<noteq> length xp then Inl ValueError
      else if x < hd xp then Inr (hd fp)
      else Inr (interp_scan x (zip xp fp)))"

subsection \<open>The track and the car\<close>

record track_arrays =
  track0 :: "real list"
  track1 :: "real list"
  track2 :: "real list"

text \<open>
  The attributes of \<open>Car\<close>. \<open>accl\<close> holds whatever array the acceleration function
  returned (a one-dimensional array of any length); \<open>pos\<close>, \<open>vel\<close>, \<open>last_pos\<close> and
  \<open>last_vel\<close> are created with two components and only ever updated in place or replaced
  by arrays of two components. The attribute \<open>end\<close> is called \<open>end_x\<close> here.
\<close>

record car =
  accl_function :: "real list \<Rightarrow> real list"
  eyes :: "vec2 list"
  track :: track_arrays
  pos :: vec2
  max_dist :: real
  accl :: "real list"
  vel :: vec2
  last_vel :: vec2
  max_vel :: vec2
  last_pos :: vec2
  pos_history :: "vec2 list"
  vel_history :: "vec2 list"
  accl_history :: "real list list"
  end_x :: real

text \<open>\<open>self.track_at\<close>: the lower and the upper boundary at \<open>x\<close>.\<close>

definition track_at :: "car \<Rightarrow> real \<Rightarrow> error + (real \<times> real)" where
  "track_at c x =
     (case np_interp x (track0 (track c)) (track1 (track c)) of
        Inl e \<Rightarrow> Inl e
      | Inr lo \<Rightarrow>
          (case np_interp x (track0 (track c)) (track2 (track c)) of
             Inl e \<Rightarrow> Inl e
           | Inr hi \<Rightarrow> Inr (lo, hi)))"

definition is_legal :: "car \<Rightarrow> error + bool" where
  "is_legal c =
     (case track_at c (fst (pos c)) of
        Inl e \<Rightarrow> Inl e
      | Inr t \<Rightarrow> Inr ((fst t < snd (pos c) \<and> snd (pos c) < snd t)
                      \<and> (0 < fst (pos c) \<and> fst (pos c) < end_x c)))"

subsection \<open>The constructor\<close>

text \<open>
  \<open>Car.__init__\<close>. The lateral start position is drawn by \<open>np.random.uniform\<close>; the
  drawn value is the parameter \<open>u\<close>, and \<open>uniform_draw\<close> says which values the call can
  return (numpy documents the half-open interval, and \<open>low\<close> itself when both ends are
  equal; with \<open>high < low\<close> the value \<open>low + (high - low) * r\<close> for \<open>r\<close> in \<open>[0, 1)\<close> lies
  between them). Reading element 0 of an empty array raises IndexError.
\<close>

definition uniform_draw :: "real \<Rightarrow> real \<Rightarrow> real \<Rightarrow> bool" where
  "uniform_draw low high u =
     ((low \<le> u \<and> u < high) \<or> (low = high \<and> u = low) \<or> (high < u \<and> u \<le> low))"

definition init_low :: "track_arrays \<Rightarrow> real" where
  "init_low trk = (hd (track1 trk) + hd (track2 trk)) / 4"

definition init_high :: "track_arrays \<Rightarrow> real" where
  "init_high trk = 3 * (hd (track1 trk) + hd (track2 trk)) / 4"

definition car_init :: "track_arrays \<Rightarrow> (real list \<Rightarrow> real list) \<Rightarrow> real \<Rightarrow> error + car" where
  "car_init trk f u =
     (if track0 trk = [] \<or> track1 trk = [] \<or> track2 trk = [] then Inl IndexError
      else Inr \<lparr> accl_function = f,
                 eyes = [(0, 1), (0, -1), (1, 1), (1, -1)],
                 track = trk,
                 pos = (hd (track0 trk) + 1, u),
                 max_dist = 1000,
                 accl = [0, 0],
                 vel = zeros2,
                 last_vel = zeros2,
                 max_vel = (25, 25),
                 last_pos = zeros2,
                 pos_history = [(hd (track0 trk) + 1, u)],
                 vel_history = [zeros2],
                 accl_history = [[0, 0]],
                 end_x = last (track0 trk) \<rparr>)"

subsection \<open>The update of a step\<close>

text \<open>The four clamping statements of \<open>update\<close>, in the order of the source.\<close>

definition clamp_vel :: "vec2 \<Rightarrow> vec2 \<Rightarrow> vec2" where
  "clamp_vel mv v =
     (let v0 = (if fst v > fst mv then fst mv else fst v);
          v0 = (if v0 < 0 then 0 else v0);
          v1 = (if snd v > snd mv then snd mv else snd v);
          v1 = (if v1 < - snd mv then - snd mv else v1)
      in (v0, v1))"

text \<open>
  \<open>self.vel += self.accl\<close>: numpy adds in place with broadcasting. An array of one element is
  added to both components, an array of two elements componentwise, and any other length
  raises ValueError (the shapes cannot be broadcast together).
\<close>

definition iadd_broadcast :: "vec2 \<Rightarrow> real list \<Rightarrow> error + vec2" where
  "iadd_broadcast v a =
     (case a of
        [s] \<Rightarrow> Inr (fst v + s, snd v + s)
      | [a0, a1] \<Rightarrow> Inr (fst v + a0, snd v + a1)
      | _ \<Rightarrow> Inl ValueError)"

definition record_history :: "car \<Rightarrow> car" where
  "record_history c =
     c\<lparr> pos_history := pos_history c @ [pos c],
        vel_history := vel_history c @ [vel c],
        accl_history := accl_history c @ [accl c] \<rparr>"

text \<open>
  The car inside \<open>update\<close>: \<open>clamped\<close> after the previous position and velocity are
  saved and the four clamping statements have run, \<open>tentative\<close> after the statement
  \<open>self.pos += self.vel\<close> that follows them, which is the car whose legality is tested.
\<close>

definition clamped :: "car \<Rightarrow> car" where
  "clamped c =
     (let c = c\<lparr> last_pos := pos c, last_vel := vel c \<rparr>
      in c\<lparr> vel := clamp_vel (max_vel c) (vel c) \<rparr>)"

definition tentative :: "car \<Rightarrow> car" where
  "tentative c = (let c = clamped c in c\<lparr> pos := vadd (pos c) (vel c) \<rparr>)"

text \<open>
  \<open>Car.update\<close>. An exception leaves the object as it was when it was raised: the result
  \<open>Inl (e, c)\<close> carries that car.
\<close>

definition update :: "car \<Rightarrow> (error \<times> car) + car" where
  "update c =
     (let c = tentative c in
      case is_legal c of
        Inl e \<Rightarrow> Inl (e, c)
      | Inr True \<Rightarrow>
          (case iadd_broadcast (vel c) (accl c) of
             Inl e \<Rightarrow> Inl (e, c)
           | Inr v \<Rightarrow> Inr (record_history (c\<lparr> vel := v \<rparr>)))
      | Inr False \<Rightarrow>
          Inr (record_history (c\<lparr> pos := last_pos c, vel := zeros2, accl := [0, 0] \<rparr>)))"

subsection \<open>The sensors\<close>

definition normalize :: "vec2 \<Rightarrow> vec2" where
  "normalize v = (let n = norm2 v in if n = 0 then v else (fst v / n, snd v / n))"

type_synonym mat2 = "vec2 \<times> vec2"

definition transpose2 :: "mat2 \<Rightarrow> mat2" where
  "transpose2 m = ((fst (fst m), fst (snd m)), (snd (fst m), snd (snd m)))"

definition eye2 :: mat2 where
  "eye2 = ((1, 0), (0, 1))"

text \<open>A row vector times a matrix, one row of \<open>self.eyes.dot(m)\<close>.\<close>

definition dot_row :: "vec2 \<Rightarrow> mat2 \<Rightarrow> vec2" where
  "dot_row e m =
     (fst e * fst (fst m) + snd e * fst (snd m), fst e * snd (fst m) + snd e * snd (snd m))"

text \<open>
  Subtraction of one-dimensional arrays with broadcasting, \<open>np.diff\<close> and \<open>np.argwhere\<close> of
  a one-dimensional array; \<open>np.sign\<close> is \<^const>\<open>sgn\<close>.
\<close>

definition np_sub :: "real list \<Rightarrow> real list \<Rightarrow> error + real list" where
  "np_sub a b =
     (if length a = length b then Inr (map2 (-) a b)
      else if length b = 1 then Inr (map (\<lambda>x. x - hd b) a)
      else if length a = 1 then Inr (map (\<lambda>y. hd a - y) b)
      else Inl ValueError)"

definition np_diff :: "real list \<Rightarrow> real list" where
  "np_diff a = map (\<lambda>k. a ! Suc k - a ! k) [0..<length a - 1]"

definition np_argwhere :: "real list \<Rightarrow> nat list" where
  "np_argwhere a = filter (\<lambda>k. a ! k \<noteq> 0) [0..<length a]"

definition rot_matrix_of :: "vec2 \<Rightarrow> mat2" where
  "rot_matrix_of v =
     (if norm2 v \<noteq> 0
      then (let v1 = normalize v in transpose2 (v1, (- snd v1, fst v1)))
      else eye2)"

text \<open>\<open>vision_tensor[k][i]\<close> is the sample \<open>k\<close> of the ray \<open>i\<close>.\<close>

definition vision_tensor_of :: "car \<Rightarrow> vec2 \<Rightarrow> vec2 \<Rightarrow> vec2 list list" where
  "vision_tensor_of c p v =
     (let rotated_eyes = map (\<lambda>e. dot_row e (transpose2 (rot_matrix_of v))) (eyes c);
          xvals = [0..<length (track0 (track c))]
      in map (\<lambda>k. map (\<lambda>e. vadd (fst e * real k, snd e * real k) p) rotated_eyes) xvals)"

text \<open>
  The body of the loop over the rays. The subtraction is outside the \<open>try\<close>, so its
  ValueError propagates. Inside the \<open>try\<close>, \<open>vision_tensor[idx, i]\<close> raises IndexError for an
  index out of range, which the handler does not catch, and \<open>reshape(2)\<close> raises ValueError
  unless exactly one index was found, which the handler turns into \<open>max_dist\<close>.
\<close>

definition ray_distance :: "car \<Rightarrow> vec2 list list \<Rightarrow> vec2 \<Rightarrow> nat \<Rightarrow> error + real" where
  "ray_distance c vt p i =
     (let trk = (if snd (eyes c ! i) > 0 then track2 (track c) else track1 (track c)) in
      case np_sub (map (\<lambda>row. snd (row ! i)) vt) trk of
        Inl e \<Rightarrow> Inl e
      | Inr d \<Rightarrow>
          (let idx = np_argwhere (np_diff (map sgn d)) in
           if \<exists>k \<in> set idx. length vt \<le> k then Inl IndexError
           else (case idx of
                   [k] \<Rightarrow> Inr (sqrt ((fst (vt ! k ! i) - fst p)\<^sup>2 + (snd (vt ! k ! i) - snd p)\<^sup>2))
                 | _ \<Rightarrow> Inr (max_dist c))))"

fun ray_loop :: "(nat \<Rightarrow> error + real) \<Rightarrow> nat list \<Rightarrow> error + real list" where
  "ray_loop body [] = Inr []"
| "ray_loop body (i # is) =
     (case body i of
        Inl e \<Rightarrow> Inl e
      | Inr d \<Rightarrow> (case ray_loop body is of Inl e \<Rightarrow> Inl e | Inr ds \<Rightarrow> Inr (d # ds)))"

definition get_surrounding :: "car \<Rightarrow> vec2 \<Rightarrow> vec2 \<Rightarrow> error + real list" where
  "get_surrounding c p v =
     ray_loop (ray_distance c (vision_tensor_of c p v) p) [0..<length (eyes c)]"

subsection \<open>A step\<close>

text \<open>\<open>Car.run\<close> returns the parameters it passed to the acceleration function.\<close>

definition run :: "car \<Rightarrow> (error \<times> car) + (real list \<times> car)" where
  "run c =
     (case get_surrounding c (pos c) (vel c) of
        Inl e \<Rightarrow> Inl (e, c)
      | Inr dists \<Rightarrow>
          (case get_surrounding c (last_pos c) (last_vel c) of
             Inl e \<Rightarrow> Inl (e, c)
           | Inr last_dists \<Rightarrow>
               (let params = dists @ [fst (vel c), snd (vel c)]
                               @ last_dists @ [fst (last_vel c), snd (last_vel c)];
                    c = c\<lparr> accl := accl_function c params \<rparr>
                in case update c of
                     Inl ec \<Rightarrow> Inl ec
                   | Inr c' \<Rightarrow> Inr (params, c'))))"

text \<open>\<open>n\<close> calls of \<open>run\<close> in a row, stopping at the first exception.\<close>

fun run_n :: "nat \<Rightarrow> car \<Rightarrow> (error \<times> car) + car" where
  "run_n 0 c = Inr c"
| "run_n (Suc n) c =
     (case run c of
        Inl ec \<Rightarrow> Inl ec
      | Inr (params, c') \<Rightarrow> run_n n c')"

subsection \<open>The utility\<close>

text \<open>
  \<open>np.max\<close> and \<open>np.argmax\<close> of a one-dimensional array: a scan from the left that replaces
  the best value only by a strictly greater one.
\<close>

fun argmax_scan :: "real list \<Rightarrow> nat \<Rightarrow> nat \<Rightarrow> real \<Rightarrow> nat" where
  "argmax_scan [] i best mp = best"
| "argmax_scan (x # xs) i best mp =
     (if x > mp then argmax_scan xs (Suc i) i x else argmax_scan xs (Suc i) best mp)"

definition np_argmax :: "real list \<Rightarrow> nat" where
  "np_argmax a = argmax_scan (tl a) 1 0 (hd a)"

definition np_max :: "real list \<Rightarrow> real" where
  "np_max a = fold max (tl a) (hd a)"

text \<open>
  \<open>Car.utility\<close>. With an empty history \<open>np.array([])[:, 0]\<close> raises IndexError.
\<close>

definition utility :: "car \<Rightarrow> error + (real \<times> int)" where
  "utility c =
     (if pos_history c = [] then Inl IndexError
      else (let x_pos = map fst (pos_history c);
                max_dist = np_max x_pos;
                time = (if max_dist \<ge> end_x c - 2 then int (np_argmax x_pos) else - 1)
            in Inr (max_dist, time)))"

subsection \<open>A small track\<close>

text \<open>
  The track of the scenarios: three samples, the corridor between \<open>-5\<close> and \<open>5\<close>, and a car
  on it whose acceleration function \<open>forward_policy\<close> always answers \<open>(1, 0)\<close>.
\<close>

definition forward_policy :: "real list \<Rightarrow> real list" where
  "forward_policy params = [1, 0]"

definition flat_track :: track_arrays where
  "flat_track = \<lparr> track0 = [0, 10, 20], track1 = [-5, -5, -5], track2 = [5, 5, 5] \<rparr>"

definition flat_car :: "vec2 \<Rightarrow> vec2 \<Rightarrow> car" where
  "flat_car p v =
     \<lparr> accl_function = forward_policy,
       eyes = [(0, 1), (0, -1), (1, 1), (1, -1)],
       track = flat_track,
       pos = p,
       max_dist = 1000,
       accl = [0, 0],
       vel = v,
       last_vel = zeros2,
       max_vel = (25, 25),
       last_pos = zeros2,
       pos_history = [p],
       vel_history = [v],
       accl_history = [[0, 0]],
       end_x = 20 \<rparr>"

text \<open>
  The cars of a run on the small track that starts at \<open>(1, 4.9)\<close> with velocity \<open>(0, 10)\<close>:
  after the first step (which leaves the track and is rolled back), the second and the
  third; and the cars of a run that starts outside the corridor, at \<open>(1, 6)\<close>.
\<close>

definition crash_car1 :: car where
  "crash_car1 = (flat_car (1, 49 / 10) (0, 0))\<lparr> last_pos := (1, 49 / 10), last_vel := (0, 10),
      pos_history := [(1, 49 / 10), (1, 49 / 10)], vel_history := [(0, 10), (0, 0)],
      accl_history := [[0, 0], [0, 0]] \<rparr>"

definition crash_car2 :: car where
  "crash_car2 = (flat_car (1, 49 / 10) (1, 0))\<lparr> accl := [1, 0], last_pos := (1, 49 / 10),
      last_vel := (0, 0),
      pos_history := [(1, 49 / 10), (1, 49 / 10), (1, 49 / 10)],
      vel_history := [(0, 10), (0, 0), (1, 0)],
      accl_history := [[0, 0], [0, 0], [1, 0]] \<rparr>"

definition crash_car3 :: car where
  "crash_car3 = (flat_car (2, 49 / 10) (2, 0))\<lparr> accl := [1, 0], last_pos := (1, 49 / 10),
      last_vel := (1, 0),
      pos_history := [(1, 49 / 10), (1, 49 / 10), (1, 49 / 10), (2, 49 / 10)],
      vel_history := [(0, 10), (0, 0), (1, 0), (2, 0)],
      accl_history := [[0, 0], [0, 0], [1, 0], [1, 0]] \<rparr>"

definition stuck_car :: car where
  "stuck_car = (flat_car (1, 6) (0, 0))\<lparr> last_pos := (1, 6), last_vel := (0, 1),
      pos_history := [(1, 6), (1, 6)], vel_history := [(0, 1), (0, 0)],
      accl_history := [[0, 0], [0, 0]] \<rparr>"

definition stuck_car2 :: car where
  "stuck_car2 = (flat_car (1, 6) (0, 0))\<lparr> last_pos := (1, 6), last_vel := (0, 0),
      pos_history := [(1, 6), (1, 6), (1, 6)], vel_history := [(0, 1), (0, 0), (0, 0)],
      accl_history := [[0, 0], [0, 0], [0, 0]] \<rparr>"

text \<open>
  A track whose corridor lies between 100 and 200, the car the constructor builds on it
  when the drawn lateral position is 80, and that car after its first step.
\<close>

definition high_track :: track_arrays where
  "high_track = \<lparr> track0 = [0, 10, 20], track1 = [100, 100, 100], track2 = [200, 200, 200] \<rparr>"

definition low_car :: car where
  "low_car = (flat_car (1, 80) (0, 0))\<lparr> track := high_track \<rparr>"

definition low_car1 :: car where
  "low_car1 = low_car\<lparr> last_pos := (1, 80), last_vel := (0, 0),
      pos_history := [(1, 80), (1, 80)], vel_history := [(0, 0), (0, 0)],
      accl_history := [[0, 0], [0, 0]] \<rparr>"

definition scalar_policy :: "real list \<Rightarrow> real list" where
  "scalar_policy params = [1]"

text \<open>The car on the small track whose acceleration function answers one number, and the
  car after its first step.\<close>

definition scalar_car :: car where
  "scalar_car = (flat_car (1, 0) (0, 0))\<lparr> accl_function := scalar_policy \<rparr>"

definition scalar_car1 :: car where
  "scalar_car1 = (flat_car (1, 0) (1, 1))\<lparr> accl_function := scalar_policy, accl := [1],
      last_pos := (1, 0), last_vel := (0, 0),
      pos_history := [(1, 0), (1, 0)], vel_history := [(0, 0), (1, 1)],
      accl_history := [[0, 0], [1]] \<rparr>"

text \<open>
  A track of 1003 samples with the corridor between \<open>0\<close> and \<open>1501.5\<close>, and the car the
  constructor builds on it when the drawn lateral position is 500.
\<close>

definition long_track :: track_arrays where
  "long_track = \<lparr> track0 = map real [0..<1003], track1 = replicate 1003 0,
                  track2 = replicate 1003 (3003 / 2) \<rparr>"

definition long_car :: car where
  "long_car =
     \<lparr> accl_function = forward_policy,
       eyes = [(0, 1), (0, -1), (1, 1), (1, -1)],
       track = long_track,
       pos = (1, 500),
       max_dist = 1000,
       accl = [0, 0],
       vel = zeros2,
       last_vel = zeros2,
       max_vel = (25, 25),
       last_pos = zeros2,
       pos_history = [(1, 500)],
       vel_history = [zeros2],
       accl_history = [[0, 0]],
       end_x = 1002 \<rparr>"

subsection \<open>Notions used in the statements\<close>

text \<open>The legality test of \<open>is_legal\<close> at a position \<open>p\<close> of the car's track.\<close>

definition legal_at :: "car \<Rightarrow> vec2 \<Rightarrow> bool" where
  "legal_at c p = (is_legal (c\<lparr> pos := p \<rparr>) = Inr True)"

text \<open>The car after a sequence of steps, also when the last one raised.\<close>

fun final :: "(error \<times> car) + car \<Rightarrow> car" where
  "final (Inl (e, c)) = c"
| "final (Inr c) = c"

text \<open>The three arrays of the track have the same length, as \<open>read_track\<close> builds them.\<close>

definition aligned :: "car \<Rightarrow> bool" where
  "aligned c = (length (track1 (track c)) = length (track0 (track c))
              \<and> length (track2 (track c)) = length (track0 (track c)))"

definition hist_ok :: "car \<Rightarrow> bool" where
  "hist_ok c = (\<forall>i. 1 \<le> i \<and> i < length (pos_history c) \<longrightarrow>
      legal_at c (pos_history c ! i) \<or> pos_history c ! i = pos_history c ! (i - 1))"

definition synced :: "car \<Rightarrow> bool" where
  "synced c = (pos_history c \<noteq> [] \<and> last (pos_history c) = pos c)"

definition all_legal :: "car \<Rightarrow> bool" where
  "all_legal c = (\<forall>p \<in> set (pos_history c). legal_at c p)"


definition boundary_of :: "car \<Rightarrow> nat \<Rightarrow> real list" where
  "boundary_of c i = (if snd (eyes c ! i) > 0 then track2 (track c) else track1 (track c))"

definition crossings :: "car \<Rightarrow> vec2 \<Rightarrow> vec2 \<Rightarrow> nat \<Rightarrow> nat list" where
  "crossings c p v i =
     np_argwhere (np_diff (map sgn (map2 (-)
       (map (\<lambda>row. snd (row ! i)) (vision_tensor_of c p v)) (boundary_of c i))))"


text \<open>
  Two cars have the same inputs of a step when they agree on everything but the stored
  acceleration (which \<open>run\<close> overwrites before it is read) and the three histories (which
  are only appended to). \<open>params_of\<close> is the array \<open>params\<close> that \<open>run\<close> builds.
\<close>

definition forget_records :: "car \<Rightarrow> car" where
  "forget_records c = c\<lparr> accl := [], pos_history := [], vel_history := [], accl_history := [] \<rparr>"

definition same_inputs :: "car \<Rightarrow> car \<Rightarrow> bool" where
  "same_inputs c1 c2 = (forget_records c1 = forget_records c2)"

definition params_of :: "car \<Rightarrow> real list \<Rightarrow> real list \<Rightarrow> real list" where
  "params_of c ds lds = ds @ [fst (vel c), snd (vel c)] @ lds @ [fst (last_vel c), snd (last_vel c)]"

subsection \<open>The arrays as objects on a heap\<close>

text \<open>
  numpy arrays are mutable objects, and the attributes of the car are references to them.
  For the statements about what a call leaves unchanged the arrays live on a heap: a map
  from addresses to arrays with the next free address \<open>limit\<close>. Creating an array
  allocates a new address; \<open>+=\<close> and item assignment write at the address of their target.
  Views (\<open>.T\<close>, \<open>expand_dims\<close>, \<open>reshape\<close>, basic slices) are only read from in
  \<open>get_surrounding\<close> and are modelled as reads of their base array; unnamed temporaries
  are not given addresses. A cell that does not hold the kind of array a reader expects
  reads as an empty or zero array.
\<close>

type_synonym addr = nat

datatype ndarray =
    Arr2 vec2
  | Arr1 "real list"
  | Mat mat2
  | Rows "vec2 list"
  | Tensor "vec2 list list"
  | Ints "nat list"

record heap =
  cells :: "addr \<Rightarrow> ndarray option"
  limit :: addr

definition alloc :: "ndarray \<Rightarrow> heap \<Rightarrow> addr \<times> heap" where
  "alloc x h = (limit h, h\<lparr> cells := (cells h)(limit h \<mapsto> x), limit := Suc (limit h) \<rparr>)"

definition assign :: "addr \<Rightarrow> ndarray \<Rightarrow> heap \<Rightarrow> heap" where
  "assign a x h = h\<lparr> cells := (cells h)(a \<mapsto> x) \<rparr>"

definition arr2_at :: "heap \<Rightarrow> addr \<Rightarrow> vec2" where
  "arr2_at h a = (case cells h a of Some (Arr2 x) \<Rightarrow> x | _ \<Rightarrow> zeros2)"

definition arr1_at :: "heap \<Rightarrow> addr \<Rightarrow> real list" where
  "arr1_at h a = (case cells h a of Some (Arr1 x) \<Rightarrow> x | _ \<Rightarrow> [])"

definition mat_at :: "heap \<Rightarrow> addr \<Rightarrow> mat2" where
  "mat_at h a = (case cells h a of Some (Mat x) \<Rightarrow> x | _ \<Rightarrow> eye2)"

definition rows_at :: "heap \<Rightarrow> addr \<Rightarrow> vec2 list" where
  "rows_at h a = (case cells h a of Some (Rows x) \<Rightarrow> x | _ \<Rightarrow> [])"

definition tensor_at :: "heap \<Rightarrow> addr \<Rightarrow> vec2 list list" where
  "tensor_at h a = (case cells h a of Some (Tensor x) \<Rightarrow> x | _ \<Rightarrow> [])"

definition ints_at :: "heap \<Rightarrow> addr \<Rightarrow> nat list" where
  "ints_at h a = (case cells h a of Some (Ints x) \<Rightarrow> x | _ \<Rightarrow> [])"

text \<open>
  The car object: its array attributes are addresses, its histories lists of addresses.
  \<open>car_of\<close> reads the car of the value-level model off the heap.
\<close>

record car_obj =
  obj_accl_function :: "real list \<Rightarrow> real list"
  obj_eyes :: addr
  obj_track0 :: addr
  obj_track1 :: addr
  obj_track2 :: addr
  obj_pos :: addr
  obj_max_dist :: real
  obj_accl :: addr
  obj_vel :: addr
  obj_last_vel :: addr
  obj_max_vel :: addr
  obj_last_pos :: addr
  obj_pos_history :: "addr list"
  obj_vel_history :: "addr list"
  obj_accl_history :: "addr list"
  obj_end :: real

definition car_of :: "car_obj \<Rightarrow> heap \<Rightarrow> car" where
  "car_of obj h =
     \<lparr> accl_function = obj_accl_function obj,
       eyes = rows_at h (obj_eyes obj),
       track = \<lparr> track0 = arr1_at h (obj_track0 obj), track1 = arr1_at h (obj_track1 obj),
                 track2 = arr1_at h (obj_track2 obj) \<rparr>,
       pos = arr2_at h (obj_pos obj),
       max_dist = obj_max_dist obj,
       accl = arr1_at h (obj_accl obj),
       vel = arr2_at h (obj_vel obj),
       last_vel = arr2_at h (obj_last_vel obj),
       max_vel = arr2_at h (obj_max_vel obj),
       last_pos = arr2_at h (obj_last_pos obj),
       pos_history = map (arr2_at h) (obj_pos_history obj),
       vel_history = map (arr2_at h) (obj_vel_history obj),
       accl_history = map (arr1_at h) (obj_accl_history obj),
       end_x = obj_end obj \<rparr>"

definition obj_addrs :: "car_obj \<Rightarrow> addr set" where
  "obj_addrs obj =
     {obj_eyes obj, obj_track0 obj, obj_track1 obj, obj_track2 obj, obj_pos obj, obj_accl obj,
      obj_vel obj, obj_last_vel obj, obj_max_vel obj, obj_last_pos obj}
     \<union> set (obj_pos_history obj) \<union> set (obj_vel_history obj) \<union> set (obj_accl_history obj)"

definition allocated :: "car_obj \<Rightarrow> heap \<Rightarrow> bool" where
  "allocated obj h = (\<forall>a \<in> obj_addrs obj. a < limit h)"

text \<open>
  \<open>normalize\<close> returns its argument itself when the norm is 0 and a new array otherwise.
  \<open>get_surrounding\<close> on the heap follows the source statement by statement; it contains no
  assignment to an attribute of \<open>self\<close>. The loop body computes the reading from the arrays
  it reads and stores it with \<open>dists[i] = ...\<close>.
\<close>

definition normalize_st :: "addr \<Rightarrow> heap \<Rightarrow> addr \<times> heap" where
  "normalize_st v h =
     (let norm = norm2 (arr2_at h v)
      in if norm = 0 then (v, h)
         else alloc (Arr2 (fst (arr2_at h v) / norm, snd (arr2_at h v) / norm)) h)"

definition rot_matrix_st :: "addr \<Rightarrow> heap \<Rightarrow> addr \<times> heap" where
  "rot_matrix_st v h =
     (if norm2 (arr2_at h v) \<noteq> 0
      then (let (v1, h) = normalize_st v h
            in alloc (Mat (transpose2 (arr2_at h v1, (- snd (arr2_at h v1), fst (arr2_at h v1))))) h)
      else alloc (Mat eye2) h)"

definition vision_tensor_st :: "car_obj \<Rightarrow> addr \<Rightarrow> addr \<Rightarrow> heap \<Rightarrow> addr \<times> heap" where
  "vision_tensor_st obj p v h =
     (let (rot_matrix, h) = rot_matrix_st v h;
          (rotated_eyes, h) =
             alloc (Rows (map (\<lambda>e. dot_row e (transpose2 (mat_at h rot_matrix)))
                              (rows_at h (obj_eyes obj)))) h;
          (xvals, h) = alloc (Ints [0..<length (arr1_at h (obj_track0 obj))]) h;
          (vision_tensor, h) =
             alloc (Tensor (map (\<lambda>k. map (\<lambda>e. (fst e * real k, snd e * real k))
                                          (rows_at h rotated_eyes))
                                (ints_at h xvals))) h;
          h = assign vision_tensor
                (Tensor (map (map (\<lambda>s. vadd s (arr2_at h p))) (tensor_at h vision_tensor))) h
      in (vision_tensor, h))"

definition ray_st :: "car_obj \<Rightarrow> addr \<Rightarrow> addr \<Rightarrow> addr \<Rightarrow> nat \<Rightarrow> heap \<Rightarrow> error option \<times> heap" where
  "ray_st obj vision_tensor p dists i h =
     (case ray_distance (car_of obj h) (tensor_at h vision_tensor) (arr2_at h p) i of
        Inl e \<Rightarrow> (Some e, h)
      | Inr d \<Rightarrow> (None, assign dists (Arr1 ((arr1_at h dists)[i := d])) h))"

fun rays_st :: "car_obj \<Rightarrow> addr \<Rightarrow> addr \<Rightarrow> addr \<Rightarrow> nat list \<Rightarrow> heap \<Rightarrow> error option \<times> heap" where
  "rays_st obj vision_tensor p dists [] h = (None, h)"
| "rays_st obj vision_tensor p dists (i # is) h =
     (case ray_st obj vision_tensor p dists i h of
        (Some e, h) \<Rightarrow> (Some e, h)
      | (None, h) \<Rightarrow> rays_st obj vision_tensor p dists is h)"

definition get_surrounding_st :: "car_obj \<Rightarrow> addr \<Rightarrow> addr \<Rightarrow> heap \<Rightarrow> (error + addr) \<times> heap" where
  "get_surrounding_st obj p v h =
     (let (vision_tensor, h) = vision_tensor_st obj p v h;
          (dists, h) = alloc (Arr1 (replicate (length (rows_at h (obj_eyes obj))) 0)) h
      in case rays_st obj vision_tensor p dists [0..<length (rows_at h (obj_eyes obj))] h of
           (Some e, h) \<Rightarrow> (Inl e, h)
         | (None, h) \<Rightarrow> (Inr dists, h))"

definition frame :: "heap \<Rightarrow> heap \<Rightarrow> bool" where
  "frame h h' = (limit h \<le> limit h' \<and> (\<forall>a<limit h. cells h' a = cells h a))"

text \<open>A heap with the car of the small track at \<open>(1, 0)\<close>.\<close>

definition flat_heap :: heap where
  "flat_heap =
     \<lparr> cells = [0 \<mapsto> Rows [(0, 1), (0, -1), (1, 1), (1, -1)],
                1 \<mapsto> Arr1 [0, 10, 20], 2 \<mapsto> Arr1 [-5, -5, -5], 3 \<mapsto> Arr1 [5, 5, 5],
                4 \<mapsto> Arr2 (1, 0), 5 \<mapsto> Arr1 [0, 0], 6 \<mapsto> Arr2 (0, 0), 7 \<mapsto> Arr2 (0, 0),
                8 \<mapsto> Arr2 (25, 25), 9 \<mapsto> Arr2 (0, 0),
                10 \<mapsto> Arr2 (1, 0), 11 \<mapsto> Arr2 (0, 0), 12 \<mapsto> Arr1 [0, 0]],
       limit = 13 \<rparr>"

definition flat_obj :: car_obj where
  "flat_obj =
     \<lparr> obj_accl_function = forward_policy,
       obj_eyes = 0, obj_track0 = 1, obj_track1 = 2, obj_track2 = 3,
       obj_pos = 4, obj_max_dist = 1000, obj_accl = 5, obj_vel = 6, obj_last_vel = 7,
       obj_max_vel = 8, obj_last_pos = 9,
       obj_pos_history = [10], obj_vel_history = [11], obj_accl_history = [12],
       obj_end = 20 \<rparr>"

subsection \<open>The clamping statements on float64 values\<close>

text \<open>
  A float64 is a number, an infinity or NaN; every comparison with NaN is false. The
  velocity reaches \<open>update\<close> from \<open>self.vel += self.accl\<close> of the step before, and
  \<open>accl\<close> is whatever the acceleration function returned, so it may hold NaN. The four
  clamping statements and the addition are given here on these values; \<open>clamp_vel\<close> and
  \<open>iadd_broadcast\<close> above are their restriction to numbers. \<open>in_box_f\<close> says with the
  comparisons of float64 that a velocity lies within the bounds.
\<close>

datatype fnum = Fin real | PInf | MInf | NaN

fun f_less :: "fnum \<Rightarrow> fnum \<Rightarrow> bool" where
  "f_less (Fin x) (Fin y) = (x < y)"
| "f_less (Fin x) PInf = True"
| "f_less MInf (Fin y) = True"
| "f_less MInf PInf = True"
| "f_less a b = False"

definition f_le :: "fnum \<Rightarrow> fnum \<Rightarrow> bool" where
  "f_le a b = (f_less a b \<or> (a = b \<and> a \<noteq> NaN))"

fun f_neg :: "fnum \<Rightarrow> fnum" where
  "f_neg (Fin x) = Fin (- x)"
| "f_neg PInf = MInf"
| "f_neg MInf = PInf"
| "f_neg NaN = NaN"


type_synonym fvec2 = "fnum \<times> fnum"




definition in_box_f :: "fvec2 \<Rightarrow> fvec2 \<Rightarrow> bool" where
  "in_box_f mv v =
     (f_le (Fin 0) (fst v) \<and> f_le (fst v) (fst mv)
      \<and> f_le (f_neg (snd mv)) (snd v) \<and> f_le (snd v) (snd mv))"


subsection \<open>A car whose acceleration function answers zero\<close>

text \<open>
  The run on the small track that starts at \<open>(1, 4.9)\<close> with velocity \<open>(0, 10)\<close>, now with
  the acceleration function \<open>rest_policy\<close> that always answers \<open>(0, 0)\<close>: the car at the
  start, after the first step (rolled back) and after the second.
\<close>

definition rest_policy :: "real list \<Rightarrow> real list" where
  "rest_policy params = [0, 0]"

definition rest_car :: car where
  "rest_car = (flat_car (1, 49 / 10) (0, 10))\<lparr> accl_function := rest_policy \<rparr>"

definition rest_car1 :: car where
  "rest_car1 = (flat_car (1, 49 / 10) (0, 0))\<lparr> accl_function := rest_policy,
      last_pos := (1, 49 / 10), last_vel := (0, 10),
      pos_history := [(1, 49 / 10), (1, 49 / 10)], vel_history := [(0, 10), (0, 0)],
      accl_history := [[0, 0], [0, 0]] \<rparr>"

definition rest_car2 :: car where
  "rest_car2 = (flat_car (1, 49 / 10) (0, 0))\<lparr> accl_function := rest_policy,
      last_pos := (1, 49 / 10), last_vel := (0, 0),
      pos_history := [(1, 49 / 10), (1, 49 / 10), (1, 49 / 10)],
      vel_history := [(0, 10), (0, 0), (0, 0)],
      accl_history := [[0, 0], [0, 0], [0, 0]] \<rparr>"

section \<open>Interpolation at the sample points\<close>

lemma interp_scan_at_sample:
  assumes "sorted_wrt (<) (map fst ps)" and "k < length ps"
  shows "interp_scan (fst (ps ! k)) ps = snd (ps ! k)"
  using assms
proof (induction "fst (ps ! k)" ps arbitrary: k rule: interp_scan.induct)
  case 1
  then show ?case by simp
next
  case (2 x0 y0)
  then show ?case by simp
next
  case (3 x0 y0 x1 y1 ps)
  show ?case
  proof (cases k)
    case 0
    with "3.prems" show ?thesis by simp
  next
    case (Suc j)
    have le: "x1 \<le> fst (((x1, y1) # ps) ! j)"
    proof (cases j)
      case 0
      then show ?thesis by simp
    next
      case (Suc i)
      with "3.prems" \<open>k = Suc j\<close> have "fst (ps ! i) \<in> set (map fst ps)"
        by simp
      with "3.prems" Suc show ?thesis by auto
    qed
    have "interp_scan (fst (((x1, y1) # ps) ! j)) ((x1, y1) # ps) = snd (((x1, y1) # ps) ! j)"
      using "3.hyps"[of j] "3.prems" Suc le by simp
    with le Suc show ?thesis by simp
  qed
qed

lemma np_interp_at_sample:
  assumes "sorted_wrt (<) xp" and "length fp = length xp" and "k < length xp"
  shows "np_interp (xp ! k) xp fp = Inr (fp ! k)"
proof -
  have ne: "xp \<noteq> []" using assms(3) by auto
  have "hd xp \<le> xp ! k"
  proof (cases k)
    case 0
    with ne show ?thesis by (simp add: hd_conv_nth)
  next
    case (Suc j)
    with assms(1,3) have "xp ! 0 < xp ! k"
      by (simp add: sorted_wrt_iff_nth_less)
    with ne show ?thesis by (simp add: hd_conv_nth)
  qed
  moreover have "interp_scan (fst (zip xp fp ! k)) (zip xp fp) = snd (zip xp fp ! k)"
    by (rule interp_scan_at_sample) (use assms in \<open>simp_all add: map_fst_zip\<close>)
  ultimately show ?thesis
    using assms ne by (simp add: np_interp_def)
qed

text \<open>
  C8. For a track whose x samples increase strictly and whose three arrays have the same
  length, the boundary lookup at the sample \<open>track[0][k]\<close> returns exactly
  \<open>(track[1][k], track[2][k])\<close>.
\<close>

theorem track_at_sample_roundtrip:
  assumes "sorted_wrt (<) (track0 (track c))"
    and "length (track1 (track c)) = length (track0 (track c))"
    and "length (track2 (track c)) = length (track0 (track c))"
    and "k < length (track0 (track c))"
  shows "track_at c (track0 (track c) ! k) = Inr (track1 (track c) ! k, track2 (track c) ! k)"
  using assms by (simp add: track_at_def np_interp_at_sample)

theorem track_at_sample_roundtrip_witness:
  "track_at (flat_car (1, 0) (0, 0)) 10 = Inr (- 5, 5)"
  using track_at_sample_roundtrip [of "flat_car (1, 0) (0, 0)" 1]
  by (simp add: flat_car_def flat_track_def)

section \<open>The utility\<close>


lemma argmax_scan_first_max:
  assumes "length pre = i" and "best < i" and "pre ! best = mp"
    and "\<forall>j<i. pre ! j \<le> mp" and "\<forall>j<best. pre ! j < mp"
  shows "argmax_scan xs i best mp < length (pre @ xs)
       \<and> (\<forall>j<length (pre @ xs). (pre @ xs) ! j \<le> (pre @ xs) ! argmax_scan xs i best mp)
       \<and> (\<forall>j<argmax_scan xs i best mp. (pre @ xs) ! j < (pre @ xs) ! argmax_scan xs i best mp)"
  using assms
proof (induction xs arbitrary: pre i best mp)
  case Nil
  then show ?case by simp
next
  case (Cons x xs)
  show ?case
  proof (cases "x > mp")
    case True
    have "argmax_scan xs (Suc i) i x < length ((pre @ [x]) @ xs)
       \<and> (\<forall>j<length ((pre @ [x]) @ xs). ((pre @ [x]) @ xs) ! j \<le> ((pre @ [x]) @ xs) ! argmax_scan xs (Suc i) i x)
       \<and> (\<forall>j<argmax_scan xs (Suc i) i x. ((pre @ [x]) @ xs) ! j < ((pre @ [x]) @ xs) ! argmax_scan xs (Suc i) i x)"
    proof (rule Cons.IH)
      show "length (pre @ [x]) = Suc i" using Cons.prems by simp
      show "i < Suc i" by simp
      show "(pre @ [x]) ! i = x" using Cons.prems(1) by (simp add: nth_append)
      show "\<forall>j<Suc i. (pre @ [x]) ! j \<le> x"
        using Cons.prems True by (auto simp: nth_append less_Suc_eq intro: less_imp_le order_trans)
      show "\<forall>j<i. (pre @ [x]) ! j < x"
        using Cons.prems True by (auto simp: nth_append intro: le_less_trans)
    qed
    with True show ?thesis by simp
  next
    case False
    have "argmax_scan xs (Suc i) best mp < length ((pre @ [x]) @ xs)
       \<and> (\<forall>j<length ((pre @ [x]) @ xs). ((pre @ [x]) @ xs) ! j \<le> ((pre @ [x]) @ xs) ! argmax_scan xs (Suc i) best mp)
       \<and> (\<forall>j<argmax_scan xs (Suc i) best mp. ((pre @ [x]) @ xs) ! j < ((pre @ [x]) @ xs) ! argmax_scan xs (Suc i) best mp)"
    proof (rule Cons.IH)
      show "length (pre @ [x]) = Suc i" using Cons.prems by simp
      show "best < Suc i" using Cons.prems by simp
      show "(pre @ [x]) ! best = mp" using Cons.prems by (simp add: nth_append)
      show "\<forall>j<Suc i. (pre @ [x]) ! j \<le> mp"
        using Cons.prems False by (auto simp: nth_append less_Suc_eq)
      show "\<forall>j<best. (pre @ [x]) ! j < mp"
        using Cons.prems by (auto simp: nth_append)
    qed
    with False show ?thesis by simp
  qed
qed

lemma np_argmax_first_max:
  assumes "a \<noteq> []"
  shows "np_argmax a < length a
       \<and> (\<forall>j<length a. a ! j \<le> a ! np_argmax a)
       \<and> (\<forall>j<np_argmax a. a ! j < a ! np_argmax a)"
proof -
  obtain x xs where a: "a = x # xs" using assms by (cases a) auto
  have "argmax_scan xs 1 0 x < length ([x] @ xs)
       \<and> (\<forall>j<length ([x] @ xs). ([x] @ xs) ! j \<le> ([x] @ xs) ! argmax_scan xs 1 0 x)
       \<and> (\<forall>j<argmax_scan xs 1 0 x. ([x] @ xs) ! j < ([x] @ xs) ! argmax_scan xs 1 0 x)"
    by (rule argmax_scan_first_max) simp_all
  then show ?thesis by (simp add: a np_argmax_def)
qed

lemma np_max_Max:
  assumes "a \<noteq> []"
  shows "np_max a = Max (set a)"
proof -
  obtain x xs where a: "a = x # xs" using assms by (cases a) auto
  show ?thesis unfolding a np_max_def using Max.set_eq_fold[of x xs] by simp
qed

lemma nth_np_argmax:
  assumes "a \<noteq> []"
  shows "a ! np_argmax a = Max (set a)"
proof (rule antisym)
  show "a ! np_argmax a \<le> Max (set a)"
    using np_argmax_first_max[OF assms] by simp
  have "Max (set a) \<in> set a" using assms by simp
  then obtain j where "j < length a" "a ! j = Max (set a)"
    by (auto simp: in_set_conv_nth)
  then show "Max (set a) \<le> a ! np_argmax a"
    using np_argmax_first_max[OF assms] by metis
qed

text \<open>
  C5. For a recorded trajectory (the history is never empty: the constructor records the
  start), \<open>utility\<close> returns the maximum x of the position history and, when that maximum
  is at least \<open>end - 2\<close>, the index of its first occurrence; when the maximum is below
  \<open>end - 2\<close> the index is \<open>-1\<close>.
\<close>

theorem utility_max_and_first_index:
  assumes "pos_history c \<noteq> []"
  shows "\<exists>mx t. utility c = Inr (mx, t)
           \<and> mx = Max (set (map fst (pos_history c)))
           \<and> (mx \<ge> end_x c - 2 \<longrightarrow>
                0 \<le> t \<and> nat t < length (pos_history c)
                \<and> fst (pos_history c ! nat t) = mx
                \<and> (\<forall>j<nat t. fst (pos_history c ! j) < mx))
           \<and> (mx < end_x c - 2 \<longrightarrow> t = - 1)"
proof -
  let ?a = "map fst (pos_history c)"
  have ne: "?a \<noteq> []" using assms by simp
  have r: "np_argmax ?a < length ?a" and f: "\<forall>j<np_argmax ?a. ?a ! j < ?a ! np_argmax ?a"
    using np_argmax_first_max[OF ne] by blast+
  have m: "?a ! np_argmax ?a = Max (set ?a)" by (rule nth_np_argmax[OF ne])
  have f': "\<forall>j<np_argmax ?a. fst (pos_history c ! j) < Max (set ?a)"
    using f r m by (metis (no_types, lifting) length_map less_trans nth_map)
  have m': "fst (pos_history c ! np_argmax ?a) = Max (set ?a)"
    using m r by simp
  define mx where "mx = Max (set ?a)"
  define t where "t = (if mx \<ge> end_x c - 2 then int (np_argmax ?a) else - 1)"
  have u: "utility c = Inr (mx, t)"
    using assms by (simp add: utility_def Let_def np_max_Max[OF ne] mx_def t_def)
  have fin: "mx \<ge> end_x c - 2 \<longrightarrow>
                0 \<le> t \<and> nat t < length (pos_history c)
                \<and> fst (pos_history c ! nat t) = mx
                \<and> (\<forall>j<nat t. fst (pos_history c ! j) < mx)"
    using r m' f' by (simp add: t_def mx_def)
  have dnf: "mx < end_x c - 2 \<longrightarrow> t = - 1"
    by (simp add: t_def)
  show ?thesis
    using u fin dnf mx_def by blast
qed

theorem utility_max_and_first_index_witness:
  "utility ((flat_car (1, 0) (0, 0))\<lparr> pos_history := [(1, 0), (19, 0), (19, 0)] \<rparr>) = Inr (19, 1)"
proof -
  let ?c = "(flat_car (1, 0) (0, 0))\<lparr> pos_history := [(1, 0), (19, 0), (19, 0)] \<rparr>"
  have ne: "pos_history ?c \<noteq> []" by simp
  obtain mx t where u: "utility ?c = Inr (mx, t)"
    and mx: "mx = Max (set (map fst (pos_history ?c)))"
    and fin: "mx \<ge> end_x ?c - 2 \<longrightarrow>
                0 \<le> t \<and> nat t < length (pos_history ?c)
                \<and> fst (pos_history ?c ! nat t) = mx
                \<and> (\<forall>j<nat t. fst (pos_history ?c ! j) < mx)"
    using utility_max_and_first_index [OF ne] by blast
  have mx19: "mx = 19" using mx by simp
  have e: "end_x ?c = 20" by (simp add: flat_car_def)
  have t0: "0 \<le> t" and t3: "nat t < 3"
    and at: "fst ([(1, 0), (19, 0), (19::real, 0::real)] ! nat t) = 19"
    and first: "\<forall>j<nat t. fst ([(1, 0), (19, 0), (19::real, 0::real)] ! j) < 19"
    using fin mx19 e by simp_all
  have "nat t = 0 \<or> nat t = 1 \<or> nat t = 2" using t3 by arith
  moreover have "nat t \<noteq> 0" using at by auto
  moreover have "nat t \<noteq> 2"
  proof
    assume "nat t = 2"
    then have "(1::nat) < nat t" by simp
    with first have "fst ([(1, 0), (19, 0), (19::real, 0::real)] ! 1) < 19" by blast
    then show False by simp
  qed
  ultimately have "nat t = 1" by blast
  then have "t = 1" using t0 by simp
  with u mx19 show ?thesis by simp
qed

section \<open>The update\<close>

lemma is_legal_pos_only:
  "track c' = track c \<Longrightarrow> end_x c' = end_x c \<Longrightarrow> pos c' = pos c \<Longrightarrow> is_legal c' = is_legal c"
  by (simp add: is_legal_def track_at_def cong: sum.case_cong)

lemma legal_at_same_track:
  "track c' = track c \<Longrightarrow> end_x c' = end_x c \<Longrightarrow> legal_at c' p = legal_at c p"
  unfolding legal_at_def by (simp add: is_legal_pos_only[of "c'\<lparr> pos := p \<rparr>" "c\<lparr> pos := p \<rparr>"])

lemma legal_at_pos: "legal_at c (pos c) = (is_legal c = Inr True)"
  by (simp add: legal_at_def)

lemma tentative_fields:
  "track (tentative c) = track c" "end_x (tentative c) = end_x c"
  "max_vel (tentative c) = max_vel c" "eyes (tentative c) = eyes c"
  "max_dist (tentative c) = max_dist c" "accl_function (tentative c) = accl_function c"
  "accl (tentative c) = accl c"
  "pos_history (tentative c) = pos_history c" "vel_history (tentative c) = vel_history c"
  "accl_history (tentative c) = accl_history c"
  "last_pos (tentative c) = pos c" "last_vel (tentative c) = vel c"
  "vel (tentative c) = clamp_vel (max_vel c) (vel c)"
  "pos (tentative c) = vadd (pos c) (clamp_vel (max_vel c) (vel c))"
  by (simp_all add: tentative_def clamped_def Let_def)

lemma update_legal:
  assumes "is_legal (tentative c) = Inr True"
    and "iadd_broadcast (clamp_vel (max_vel c) (vel c)) (accl c) = Inr v"
  shows "update c = Inr (record_history ((tentative c)\<lparr> vel := v \<rparr>))"
  using assms by (simp add: update_def Let_def tentative_fields)

lemma update_legal_error:
  assumes "is_legal (tentative c) = Inr True"
    and "iadd_broadcast (clamp_vel (max_vel c) (vel c)) (accl c) = Inl e"
  shows "update c = Inl (e, tentative c)"
  using assms by (simp add: update_def Let_def tentative_fields)

lemma update_illegal:
  assumes "is_legal (tentative c) = Inr False"
  shows "update c = Inr (record_history ((tentative c)\<lparr> pos := pos c, vel := zeros2, accl := [0, 0] \<rparr>))"
  using assms by (simp add: update_def Let_def tentative_fields)

lemma update_legality_error:
  assumes "is_legal (tentative c) = Inl e"
  shows "update c = Inl (e, tentative c)"
  using assms by (simp add: update_def Let_def)

lemma update_Inr_cases:
  assumes "update c = Inr c'"
  obtains (legal) v where "is_legal (tentative c) = Inr True"
      and "iadd_broadcast (clamp_vel (max_vel c) (vel c)) (accl c) = Inr v"
      and "c' = record_history ((tentative c)\<lparr> vel := v \<rparr>)"
  | (illegal) "is_legal (tentative c) = Inr False"
      and "c' = record_history ((tentative c)\<lparr> pos := pos c, vel := zeros2, accl := [0, 0] \<rparr>)"
proof (cases "is_legal (tentative c)")
  case (Inl e)
  with assms show ?thesis by (simp add: update_legality_error)
next
  case (Inr b)
  show ?thesis
  proof (cases b)
    case True
    show ?thesis
    proof (cases "iadd_broadcast (clamp_vel (max_vel c) (vel c)) (accl c)")
      case (Inl e)
      with assms Inr True show ?thesis by (simp add: update_legal_error)
    next
      case (Inr v)
      with assms \<open>is_legal (tentative c) = Inr b\<close> True legal show ?thesis
        by (simp add: update_legal)
    qed
  next
    case False
    with assms Inr illegal show ?thesis by (simp add: update_illegal)
  qed
qed

lemma update_Inl_state:
  assumes "update c = Inl (e, c')"
  shows "c' = tentative c"
  using assms by (auto simp: update_def Let_def split: sum.splits bool.splits)

lemma record_history_fields:
  "track (record_history c) = track c" "end_x (record_history c) = end_x c"
  "max_vel (record_history c) = max_vel c" "eyes (record_history c) = eyes c"
  "max_dist (record_history c) = max_dist c" "accl_function (record_history c) = accl_function c"
  "pos (record_history c) = pos c" "vel (record_history c) = vel c" "accl (record_history c) = accl c"
  "last_pos (record_history c) = last_pos c" "last_vel (record_history c) = last_vel c"
  "pos_history (record_history c) = pos_history c @ [pos c]"
  "vel_history (record_history c) = vel_history c @ [vel c]"
  "accl_history (record_history c) = accl_history c @ [accl c]"
  by (simp_all add: record_history_def)

lemma update_frame:
  assumes "update c = Inr c'"
  shows "track c' = track c \<and> end_x c' = end_x c \<and> max_vel c' = max_vel c \<and> eyes c' = eyes c
       \<and> max_dist c' = max_dist c \<and> accl_function c' = accl_function c"
  using assms by (cases rule: update_Inr_cases) (simp_all add: record_history_fields tentative_fields)

lemma update_history:
  assumes "update c = Inr c'"
  shows "pos_history c' = pos_history c @ [pos c'] \<and> vel_history c' = vel_history c @ [vel c']
       \<and> accl_history c' = accl_history c @ [accl c']"
  using assms by (cases rule: update_Inr_cases) (simp_all add: record_history_fields tentative_fields)

lemma update_pos_legal_or_same:
  assumes "update c = Inr c'"
  shows "legal_at c (pos c') \<or> pos c' = pos c"
  using assms
proof (cases rule: update_Inr_cases)
  case (legal v)
  have "is_legal (c\<lparr> pos := pos (tentative c) \<rparr>) = is_legal (tentative c)"
    by (rule is_legal_pos_only) (simp_all add: tentative_fields)
  with legal show ?thesis
    by (simp add: legal_at_def record_history_fields)
next
  case illegal
  then show ?thesis by (simp add: record_history_fields)
qed

section \<open>Sensing never fails on an aligned track, and what a step changes\<close>

lemma length_np_diff: "length (np_diff a) = length a - 1"
  by (simp add: np_diff_def)

lemma np_argwhere_less: "k \<in> set (np_argwhere a) \<Longrightarrow> k < length a"
  by (simp add: np_argwhere_def)

lemma length_vision_tensor_of: "length (vision_tensor_of c p v) = length (track0 (track c))"
  by (simp add: vision_tensor_of_def Let_def)

lemma np_sub_same_length:
  "length a = length b \<Longrightarrow> np_sub a b = Inr (map2 (-) a b)"
  by (simp add: np_sub_def)

lemma ray_distance_ok:
  assumes "aligned c"
  shows "\<exists>d. ray_distance c (vision_tensor_of c p v) p i = Inr d"
proof -
  define vt where "vt = vision_tensor_of c p v"
  define trk where "trk = (if snd (eyes c ! i) > 0 then track2 (track c) else track1 (track c))"
  define col where "col = map (\<lambda>row. snd (row ! i)) vt"
  define idx where "idx = np_argwhere (np_diff (map sgn (map2 (-) col trk)))"
  have len: "length col = length trk"
    using assms by (simp add: aligned_def length_vision_tensor_of col_def trk_def vt_def)
  have sub: "np_sub col trk = Inr (map2 (-) col trk)"
    by (rule np_sub_same_length[OF len])
  have "\<forall>k \<in> set idx. k < length vt"
  proof
    fix k assume "k \<in> set idx"
    then have "k < length (np_diff (map sgn (map2 (-) col trk)))"
      unfolding idx_def by (rule np_argwhere_less)
    also have "\<dots> \<le> length vt"
      using len by (simp add: length_np_diff col_def)
    finally show "k < length vt" .
  qed
  then have noix: "\<not> (\<exists>k \<in> set idx. length vt \<le> k)" by auto
  have "ray_distance c vt p i =
          (case idx of
             [k] \<Rightarrow> Inr (sqrt ((fst (vt ! k ! i) - fst p)\<^sup>2 + (snd (vt ! k ! i) - snd p)\<^sup>2))
           | _ \<Rightarrow> Inr (max_dist c))"
    unfolding ray_distance_def Let_def trk_def[symmetric] col_def[symmetric] sub sum.case
      idx_def[symmetric]
    using noix by simp
  then show ?thesis
    unfolding vt_def by (simp split: list.splits)
qed

lemma ray_loop_ok:
  assumes "\<forall>i \<in> set js. \<exists>d. body i = Inr d"
  shows "\<exists>ds. ray_loop body js = Inr ds \<and> length ds = length js
           \<and> (\<forall>j<length js. body (js ! j) = Inr (ds ! j))"
  using assms
proof (induction js)
  case Nil
  then show ?case by simp
next
  case (Cons i js)
  then obtain d where d: "body i = Inr d" by auto
  from Cons obtain ds where ds: "ray_loop body js = Inr ds" "length ds = length js"
    "\<forall>j<length js. body (js ! j) = Inr (ds ! j)" by auto
  have "\<forall>j<length (i # js). body ((i # js) ! j) = Inr ((d # ds) ! j)"
    using d ds(3) by (auto simp: nth_Cons split: nat.splits)
  with d ds show ?case by simp
qed

lemma ray_loop_Inr:
  assumes "ray_loop body js = Inr ds"
  shows "length ds = length js \<and> (\<forall>j<length js. body (js ! j) = Inr (ds ! j))"
  using assms
proof (induction js arbitrary: ds)
  case Nil
  then show ?case by simp
next
  case (Cons i js)
  from Cons.prems obtain d ds' where d: "body i = Inr d" and r: "ray_loop body js = Inr ds'"
    and e: "ds = d # ds'"
    by (auto split: sum.splits)
  from Cons.IH[OF r] have "length ds' = length js" "\<forall>j<length js. body (js ! j) = Inr (ds' ! j)"
    by auto
  then show ?case using d e by (auto simp: nth_Cons split: nat.splits)
qed

lemma get_surrounding_ok:
  assumes "aligned c"
  shows "\<exists>ds. get_surrounding c p v = Inr ds \<and> length ds = length (eyes c)"
proof -
  have "\<forall>i \<in> set [0..<length (eyes c)]. \<exists>d. ray_distance c (vision_tensor_of c p v) p i = Inr d"
    using ray_distance_ok[OF assms] by blast
  from ray_loop_ok[OF this] show ?thesis
    by (auto simp: get_surrounding_def)
qed


lemma run_aligned:
  assumes "aligned c"
  shows "\<exists>ps. run c = (case update (c\<lparr> accl := accl_function c ps \<rparr>) of
                          Inl ec \<Rightarrow> Inl ec | Inr c' \<Rightarrow> Inr (ps, c'))"
proof -
  obtain ds where ds: "get_surrounding c (pos c) (vel c) = Inr ds"
    using get_surrounding_ok[OF assms] by blast
  obtain lds where lds: "get_surrounding c (last_pos c) (last_vel c) = Inr lds"
    using get_surrounding_ok[OF assms] by blast
  show ?thesis
    by (rule exI[of _ "ds @ [fst (vel c), snd (vel c)] @ lds @ [fst (last_vel c), snd (last_vel c)]"])
       (simp add: run_def ds lds Let_def split: sum.splits)
qed

lemma run_Inr:
  assumes "run c = Inr (ps, c')"
  shows "update (c\<lparr> accl := accl_function c ps \<rparr>) = Inr c'"
  using assms by (auto simp: run_def Let_def split: sum.splits)

lemma run_Inl:
  assumes "run c = Inl (e, c')"
  shows "c' = c \<or> (\<exists>ps. c' = tentative (c\<lparr> accl := accl_function c ps \<rparr>))"
  using assms by (auto simp: run_def Let_def split: sum.splits dest: update_Inl_state)

lemma run_frame:
  assumes "run c = Inr (ps, c')"
  shows "track c' = track c \<and> end_x c' = end_x c \<and> max_vel c' = max_vel c \<and> eyes c' = eyes c
       \<and> max_dist c' = max_dist c \<and> accl_function c' = accl_function c"
  using update_frame[OF run_Inr[OF assms]] by simp

lemma run_history:
  assumes "run c = Inr (ps, c')"
  shows "pos_history c' = pos_history c @ [pos c'] \<and> vel_history c' = vel_history c @ [vel c']
       \<and> accl_history c' = accl_history c @ [accl c']"
  using update_history[OF run_Inr[OF assms]] by simp

lemma run_pos_legal_or_same:
  assumes "run c = Inr (ps, c')"
  shows "legal_at c (pos c') \<or> pos c' = pos c"
proof -
  let ?c = "c\<lparr> accl := accl_function c ps \<rparr>"
  have "legal_at ?c (pos c') \<or> pos c' = pos ?c"
    by (rule update_pos_legal_or_same[OF run_Inr[OF assms]])
  moreover have "legal_at ?c (pos c') = legal_at c (pos c')"
    by (rule legal_at_same_track) simp_all
  ultimately show ?thesis by simp
qed

lemma run_Inl_frame:
  assumes "run c = Inl (e, c')"
  shows "track c' = track c \<and> end_x c' = end_x c \<and> pos_history c' = pos_history c"
  using run_Inl[OF assms] by (auto simp: tentative_fields)

section \<open>Steps of the car on the small track\<close>

lemma aligned_flat_car: "aligned (flat_car p v)"
  by (simp add: aligned_def flat_car_def flat_track_def)

lemma tentative_accl: "tentative (c\<lparr> accl := a \<rparr>) = (tentative c)\<lparr> accl := a \<rparr>"
  by (simp add: tentative_def clamped_def Let_def)

lemma is_legal_accl: "is_legal (c\<lparr> accl := a \<rparr>) = is_legal c"
  by (rule is_legal_pos_only) simp_all

lemma run_n_Suc_const:
  assumes "aligned c" and "accl_function c = (\<lambda>ps. a)" and "update (c\<lparr> accl := a \<rparr>) = Inr c'"
  shows "run_n (Suc n) c = run_n n c'"
proof -
  obtain ps where "run c = (case update (c\<lparr> accl := accl_function c ps \<rparr>) of
                          Inl ec \<Rightarrow> Inl ec | Inr c' \<Rightarrow> Inr (ps, c'))"
    using run_aligned[OF assms(1)] by blast
  then have "run c = Inr (ps, c')" using assms(2,3) by simp
  then show ?thesis by simp
qed

lemmas step_eval = update_def tentative_def clamped_def is_legal_def track_at_def np_interp_def
  clamp_vel_def vadd_def iadd_broadcast_def record_history_def zeros2_def Let_def

lemma flat_step_legal_start:
  "update ((flat_car (1, 0) (0, 0))\<lparr> accl := [1, 0] \<rparr>) =
     Inr ((flat_car (1, 0) (1, 0))\<lparr> accl := [1, 0], last_pos := (1, 0),
            pos_history := [(1, 0), (1, 0)], vel_history := [(0, 0), (1, 0)],
            accl_history := [[0, 0], [1, 0]] \<rparr>)"
  by (simp add: step_eval flat_car_def flat_track_def)

lemma flat_run_1:
  "run_n 1 (flat_car (1, 0) (0, 0)) =
     Inr ((flat_car (1, 0) (1, 0))\<lparr> accl := [1, 0], last_pos := (1, 0),
            pos_history := [(1, 0), (1, 0)], vel_history := [(0, 0), (1, 0)],
            accl_history := [[0, 0], [1, 0]] \<rparr>)"
proof -
  have "run_n (Suc 0) (flat_car (1, 0) (0, 0)) = run_n 0 ((flat_car (1, 0) (1, 0))\<lparr> accl := [1, 0], last_pos := (1, 0),
            pos_history := [(1, 0), (1, 0)], vel_history := [(0, 0), (1, 0)],
            accl_history := [[0, 0], [1, 0]] \<rparr>)"
    by (rule run_n_Suc_const[OF aligned_flat_car _ flat_step_legal_start])
      (simp add: flat_car_def forward_policy_def fun_eq_iff)
  then show ?thesis by simp
qed

lemma flat_car_init: "car_init flat_track forward_policy 0 = Inr (flat_car (1, 0) (0, 0))"
  by (simp add: car_init_def flat_car_def flat_track_def zeros2_def)

lemma flat_crash_tentative: "is_legal (tentative (flat_car (1, 49 / 10) (0, 10))) = Inr False"
  by (simp add: step_eval flat_car_def flat_track_def)

lemma flat_start_legal: "legal_at (flat_car (1, 0) (0, 0)) (1, 0)"
  by (simp add: legal_at_def step_eval flat_car_def flat_track_def)

lemma run_const:
  assumes "aligned c" and "accl_function c = (\<lambda>ps. a)" and "update (c\<lparr> accl := a \<rparr>) = Inr c'"
  shows "\<exists>ps. run c = Inr (ps, c')"
proof -
  obtain ps where "run c = (case update (c\<lparr> accl := accl_function c ps \<rparr>) of
                          Inl ec \<Rightarrow> Inl ec | Inr c' \<Rightarrow> Inr (ps, c'))"
    using run_aligned[OF assms(1)] by blast
  then have "run c = Inr (ps, c')" using assms(2,3) by simp
  then show ?thesis by blast
qed

section \<open>The rollback invariant\<close>

lemma car_init_synced:
  assumes "car_init trk f u = Inr c"
  shows "synced c \<and> hist_ok c \<and> pos_history c = [pos c]"
  using assms by (auto simp: car_init_def synced_def hist_ok_def split: if_splits)

lemma run_synced:
  assumes "run c = Inr (ps, c')"
  shows "synced c'"
  using run_history[OF assms] by (simp add: synced_def)

lemma hist_ok_snoc:
  assumes ok: "hist_ok c" and sy: "synced c"
    and tr: "track c' = track c" "end_x c' = end_x c"
    and h: "pos_history c' = pos_history c @ [q]"
    and q: "legal_at c q \<or> q = pos c"
  shows "hist_ok c'"
  unfolding hist_ok_def
proof (intro allI impI)
  fix i assume i: "1 \<le> i \<and> i < length (pos_history c')"
  have la: "\<And>p. legal_at c' p = legal_at c p"
    by (rule legal_at_same_track[OF tr])
  show "legal_at c' (pos_history c' ! i) \<or> pos_history c' ! i = pos_history c' ! (i - 1)"
  proof (cases "i < length (pos_history c)")
    case True
    with i ok have "legal_at c (pos_history c ! i) \<or> pos_history c ! i = pos_history c ! (i - 1)"
      by (simp add: hist_ok_def)
    moreover have "i - 1 < length (pos_history c)" using True by simp
    ultimately show ?thesis using True by (simp add: h la nth_append)
  next
    case False
    with i h have ieq: "i = length (pos_history c)" by simp
    have "pos_history c ! (i - 1) = pos c"
      using sy ieq last_conv_nth[of "pos_history c"] by (simp add: synced_def)
    moreover have "i - 1 < length (pos_history c)"
      using sy ieq by (simp add: synced_def)
    ultimately show ?thesis
      using q ieq by (auto simp: h la nth_append)
  qed
qed

lemma run_hist_ok:
  assumes "run c = Inr (ps, c')" and "hist_ok c" and "synced c"
  shows "hist_ok c'"
proof (rule hist_ok_snoc[OF assms(2,3)])
  show "track c' = track c" "end_x c' = end_x c" using run_frame[OF assms(1)] by simp_all
  show "pos_history c' = pos_history c @ [pos c']" using run_history[OF assms(1)] by simp
  show "legal_at c (pos c') \<or> pos c' = pos c" by (rule run_pos_legal_or_same[OF assms(1)])
qed

lemma run_Inl_hist_ok:
  assumes "run c = Inl (e, c')" and "hist_ok c"
  shows "hist_ok c'"
proof -
  have f: "track c' = track c" "end_x c' = end_x c" "pos_history c' = pos_history c"
    using run_Inl_frame[OF assms(1)] by simp_all
  have "\<And>p. legal_at c' p = legal_at c p" by (rule legal_at_same_track[OF f(1,2)])
  with assms(2) f(3) show ?thesis by (simp add: hist_ok_def)
qed

lemma run_n_hist_ok:
  assumes "hist_ok c" and "synced c"
  shows "hist_ok (final (run_n n c))"
  using assms
proof (induction n arbitrary: c)
  case 0
  then show ?case by simp
next
  case (Suc n)
  show ?case
  proof (cases "run c")
    case (Inl ec)
    obtain e c' where ec: "ec = (e, c')" by (cases ec)
    with Inl Suc.prems show ?thesis by (simp add: run_Inl_hist_ok)
  next
    case (Inr r)
    obtain ps c' where r: "r = (ps, c')" by (cases r)
    have rc: "run c = Inr (ps, c')" using Inr r by simp
    have "hist_ok (final (run_n n c'))"
      using run_hist_ok[OF rc Suc.prems] run_synced[OF rc] by (rule Suc.IH)
    with Inr r show ?thesis by simp
  qed
qed

lemma run_all_legal:
  assumes "run c = Inr (ps, c')" and "all_legal c" and "synced c"
  shows "all_legal c'"
proof -
  have f: "track c' = track c" "end_x c' = end_x c" using run_frame[OF assms(1)] by simp_all
  have la: "\<And>p. legal_at c' p = legal_at c p" by (rule legal_at_same_track[OF f])
  have "pos c \<in> set (pos_history c)"
    using assms(3) last_in_set[of "pos_history c"] by (simp add: synced_def)
  then have "legal_at c (pos c)" using assms(2) by (simp add: all_legal_def)
  with run_pos_legal_or_same[OF assms(1)] have "legal_at c (pos c')" by auto
  with assms(2) show ?thesis
    using run_history[OF assms(1)] by (auto simp: all_legal_def la)
qed

lemma run_Inl_all_legal:
  assumes "run c = Inl (e, c')" and "all_legal c"
  shows "all_legal c'"
proof -
  have f: "track c' = track c" "end_x c' = end_x c" "pos_history c' = pos_history c"
    using run_Inl_frame[OF assms(1)] by simp_all
  have "\<And>p. legal_at c' p = legal_at c p" by (rule legal_at_same_track[OF f(1,2)])
  with assms(2) f(3) show ?thesis by (simp add: all_legal_def)
qed

lemma run_n_all_legal:
  assumes "all_legal c" and "synced c"
  shows "all_legal (final (run_n n c))"
  using assms
proof (induction n arbitrary: c)
  case 0
  then show ?case by simp
next
  case (Suc n)
  show ?case
  proof (cases "run c")
    case (Inl ec)
    obtain e c' where ec: "ec = (e, c')" by (cases ec)
    with Inl Suc.prems show ?thesis by (simp add: run_Inl_all_legal)
  next
    case (Inr r)
    obtain ps c' where r: "r = (ps, c')" by (cases r)
    have rc: "run c = Inr (ps, c')" using Inr r by simp
    have "all_legal (final (run_n n c'))"
      using run_all_legal[OF rc Suc.prems] run_synced[OF rc] by (rule Suc.IH)
    with Inr r show ?thesis by simp
  qed
qed

lemma rollback_step:
  assumes "is_legal (tentative c) = Inr False"
  shows "\<exists>c'. update c = Inr c' \<and> pos c' = pos c \<and> vel c' = zeros2 \<and> accl c' = [0, 0]
           \<and> pos_history c' = pos_history c @ [pos c]
           \<and> vel_history c' = vel_history c @ [zeros2]
           \<and> accl_history c' = accl_history c @ [[0, 0]]"
  by (simp add: update_illegal[OF assms] record_history_fields tentative_fields)

text \<open>
  What the step keeps. After any number of steps of a car built by the constructor, every entry
  \<open>pos_history[i]\<close> with \<open>i \<ge> 1\<close> passes the legality test of \<open>is_legal\<close> or equals
  \<open>pos_history[i-1]\<close> (also when the last step raised). A step whose tentative position
  fails the test records the previous position again and zeroes velocity and acceleration.
  So every recorded position of a car that starts at a legal position is legal.
\<close>

theorem rollback_invariant:
  "(car_init trk f u = Inr c0 \<and> c = final (run_n n c0) \<and> 1 \<le> i \<and> i < length (pos_history c)
      \<longrightarrow> legal_at c (pos_history c ! i) \<or> pos_history c ! i = pos_history c ! (i - 1))
   \<and> (is_legal (tentative d) = Inr False
      \<longrightarrow> (\<exists>d'. update d = Inr d' \<and> pos d' = pos d \<and> vel d' = zeros2 \<and> accl d' = [0, 0]
             \<and> pos_history d' = pos_history d @ [pos d]
             \<and> vel_history d' = vel_history d @ [zeros2]
             \<and> accl_history d' = accl_history d @ [[0, 0]]))
   \<and> (car_init trk f u = Inr c0 \<and> legal_at c0 (pos c0) \<and> c = final (run_n n c0)
        \<and> i < length (pos_history c)
      \<longrightarrow> legal_at c (pos_history c ! i))"
proof (intro conjI impI)
  assume a: "car_init trk f u = Inr c0 \<and> c = final (run_n n c0) \<and> 1 \<le> i \<and> i < length (pos_history c)"
  then have init: "car_init trk f u = Inr c0" and c: "c = final (run_n n c0)"
    and i: "1 \<le> i \<and> i < length (pos_history c)" by blast+
  have "hist_ok c0" "synced c0"
    using car_init_synced[OF init] by blast+
  then have "hist_ok c"
    unfolding c by (rule run_n_hist_ok)
  then show "legal_at c (pos_history c ! i) \<or> pos_history c ! i = pos_history c ! (i - 1)"
    unfolding hist_ok_def using i by blast
next
  assume "is_legal (tentative d) = Inr False"
  then show "\<exists>d'. update d = Inr d' \<and> pos d' = pos d \<and> vel d' = zeros2 \<and> accl d' = [0, 0]
             \<and> pos_history d' = pos_history d @ [pos d]
             \<and> vel_history d' = vel_history d @ [zeros2]
             \<and> accl_history d' = accl_history d @ [[0, 0]]"
    by (rule rollback_step)
next
  assume a: "car_init trk f u = Inr c0 \<and> legal_at c0 (pos c0) \<and> c = final (run_n n c0)
        \<and> i < length (pos_history c)"
  then have init: "car_init trk f u = Inr c0" and l0: "legal_at c0 (pos c0)"
    and c: "c = final (run_n n c0)" and i: "i < length (pos_history c)" by blast+
  have s: "synced c0" "pos_history c0 = [pos c0]"
    using car_init_synced[OF init] by blast+
  have "all_legal c0" using l0 s(2) by (simp add: all_legal_def)
  then have "all_legal c"
    unfolding c using s(1) by (rule run_n_all_legal)
  then show "legal_at c (pos_history c ! i)"
    unfolding all_legal_def using i by simp
qed

theorem rollback_invariant_witness:
  "car_init flat_track forward_policy 0 = Inr (flat_car (1, 0) (0, 0))
   \<and> length (pos_history (final (run_n 1 (flat_car (1, 0) (0, 0))))) = 2
   \<and> (legal_at (final (run_n 1 (flat_car (1, 0) (0, 0))))
          (pos_history (final (run_n 1 (flat_car (1, 0) (0, 0)))) ! 1)
        \<or> pos_history (final (run_n 1 (flat_car (1, 0) (0, 0)))) ! 1
           = pos_history (final (run_n 1 (flat_car (1, 0) (0, 0)))) ! 0)
   \<and> is_legal (tentative (flat_car (1, 49 / 10) (0, 10))) = Inr False
   \<and> (\<exists>d'. update (flat_car (1, 49 / 10) (0, 10)) = Inr d' \<and> pos d' = (1, 49 / 10)
          \<and> vel d' = zeros2 \<and> accl d' = [0, 0]
          \<and> pos_history d' = [(1, 49 / 10), (1, 49 / 10)])
   \<and> legal_at (flat_car (1, 0) (0, 0)) (1, 0)
   \<and> legal_at (final (run_n 1 (flat_car (1, 0) (0, 0))))
        (pos_history (final (run_n 1 (flat_car (1, 0) (0, 0)))) ! 1)"
proof -
  let ?s = "flat_car (1, 0) (0, 0)"
  let ?r = "final (run_n 1 ?s)"
  let ?d = "flat_car (1, 49 / 10) (0, 10)"
  have len: "length (pos_history ?r) = 2" unfolding flat_run_1 by simp
  have p0: "pos ?s = (1, 0)" by (simp add: flat_car_def)
  have pd: "pos ?d = (1, 49 / 10)" "pos_history ?d = [(1, 49 / 10)]" by (simp_all add: flat_car_def)
  note inst = rollback_invariant [where trk = flat_track and f = forward_policy and u = 0
      and ?c0.0 = ?s and c = ?r and n = 1 and i = 1 and d = ?d]
  have a: "legal_at ?r (pos_history ?r ! 1) \<or> pos_history ?r ! 1 = pos_history ?r ! 0"
    using inst flat_car_init len by simp
  have b: "\<exists>d'. update ?d = Inr d' \<and> pos d' = (1, 49 / 10) \<and> vel d' = zeros2 \<and> accl d' = [0, 0]
          \<and> pos_history d' = [(1, 49 / 10), (1, 49 / 10)]"
    using inst flat_crash_tentative pd by auto
  have c: "legal_at ?r (pos_history ?r ! 1)"
    using inst flat_car_init len flat_start_legal p0 by simp
  show ?thesis
    using flat_car_init len a flat_crash_tentative b flat_start_legal c by blast
qed

lemma low_car_update: "update (low_car\<lparr> accl := [1, 0] \<rparr>) = Inr low_car1"
  by (simp add: step_eval low_car_def low_car1_def flat_car_def high_track_def)

lemma low_car_facts: "aligned low_car" "accl_function low_car = (\<lambda>ps. [1, 0])"
  by (simp_all add: aligned_def low_car_def flat_car_def high_track_def forward_policy_def fun_eq_iff)

text \<open>
  C1. The vehicle is recorded in an illegal state, through the constructor. It draws the
  lateral start position from \<open>[(l + u) / 4, 3 (l + u) / 4)\<close>, where \<open>l\<close> and \<open>u\<close> are the
  boundaries at the first sample: an interval around the middle of the corridor, of
  half-width \<open>(l + u) / 4\<close> where the corridor has \<open>(u - l) / 2\<close>. On a track whose corridor
  is \<open>(100, 200)\<close> the interval is \<open>[75, 225)\<close>; with the draw 80 the car starts below the
  corridor, its first step (the tentative position is illegal as well) is rolled back to
  the start, and the position recorded at index 1 is illegal. It equals the position at
  index 0, so the first half of C1 holds of this run and its conclusion does not.
\<close>

theorem illegal_start_recorded:
  "init_low high_track = 75 \<and> init_high high_track = 225
   \<and> uniform_draw (init_low high_track) (init_high high_track) 80
   \<and> car_init high_track forward_policy 80 = Inr low_car
   \<and> track_at low_car 1 = Inr (100, 200)
   \<and> pos low_car = (1, 80) \<and> is_legal low_car = Inr False
   \<and> is_legal (tentative low_car) = Inr False
   \<and> run_n 1 low_car = Inr low_car1
   \<and> pos_history low_car1 = [(1, 80), (1, 80)]
   \<and> is_legal (low_car1\<lparr> pos := pos_history low_car1 ! 1 \<rparr>) = Inr False"
proof -
  have b: "init_low high_track = 75" "init_high high_track = 225"
    by (simp_all add: init_low_def init_high_def high_track_def)
  have d: "uniform_draw (init_low high_track) (init_high high_track) 80"
    by (simp add: uniform_draw_def init_low_def init_high_def high_track_def)
  have i: "car_init high_track forward_policy 80 = Inr low_car"
    by (simp add: car_init_def low_car_def flat_car_def high_track_def zeros2_def)
  have t: "track_at low_car 1 = Inr (100, 200)"
    by (simp add: step_eval low_car_def flat_car_def high_track_def)
  have p: "pos low_car = (1, 80)" by (simp add: low_car_def flat_car_def)
  have l: "is_legal low_car = Inr False"
    by (simp add: step_eval low_car_def flat_car_def high_track_def)
  have lt: "is_legal (tentative low_car) = Inr False"
    by (simp add: step_eval low_car_def flat_car_def high_track_def)
  have r: "run_n 1 low_car = Inr low_car1"
    using run_n_Suc_const[OF low_car_facts low_car_update, of 0] by simp
  have h: "pos_history low_car1 = [(1, 80), (1, 80)]" by (simp add: low_car1_def)
  have n: "is_legal (low_car1\<lparr> pos := pos_history low_car1 ! 1 \<rparr>) = Inr False"
    by (simp add: step_eval low_car_def low_car1_def flat_car_def high_track_def)
  from b d i t p l lt r h n show ?thesis by (intro conjI)
qed

section \<open>What the constructor fixes\<close>

lemma long_car_draw: "uniform_draw (init_low long_track) (init_high long_track) 500"
  by (simp add: uniform_draw_def init_low_def init_high_def long_track_def)




section \<open>The order of clamping and integration\<close>


lemma clamped_fields:
  "vel (clamped c) = clamp_vel (max_vel c) (vel c)" "pos (clamped c) = pos c"
  "max_vel (clamped c) = max_vel c" "accl (clamped c) = accl c"
  by (simp_all add: clamped_def Let_def)








lemma nan_not_in_box: "fst v = NaN \<or> snd v = NaN \<Longrightarrow> \<not> in_box_f mv v"
  by (cases "snd mv") (auto simp: in_box_f_def f_le_def)





section \<open>After a crash\<close>

lemma clamp_vel_zero: "0 \<le> snd mv \<Longrightarrow> clamp_vel mv zeros2 = zeros2"
  by (simp add: clamp_vel_def zeros2_def Let_def)

lemma vadd_zero: "vadd p zeros2 = p"
  by (simp add: vadd_def zeros2_def)

lemma tentative_at_rest:
  assumes "vel c = zeros2" and "0 \<le> snd (max_vel c)"
  shows "pos (tentative c) = pos c"
  by (simp add: tentative_fields assms(1) clamp_vel_zero[OF assms(2)] vadd_zero)

lemma is_legal_tentative_at_rest:
  assumes "vel c = zeros2" and "0 \<le> snd (max_vel c)"
  shows "is_legal (tentative c) = is_legal c"
  by (rule is_legal_pos_only) (simp_all add: tentative_fields(1,2) tentative_at_rest[OF assms])

lemma is_legal_bool:
  "is_legal c = Inr b \<Longrightarrow> legal_at c (pos c) = b"
  by (cases b) (simp_all add: legal_at_def)

lemma step_at_rest:
  assumes r: "run c = Inr (ps, c')" and v: "vel c = zeros2" and m: "0 \<le> snd (max_vel c)"
  shows "pos c' = pos c
       \<and> (if legal_at c (pos c) then iadd_broadcast zeros2 (accl_function c ps) = Inr (vel c')
          else vel c' = zeros2)"
proof -
  let ?k = "c\<lparr> accl := accl_function c ps \<rparr>"
  have u: "update ?k = Inr c'" by (rule run_Inr[OF r])
  have vk: "vel ?k = zeros2" "0 \<le> snd (max_vel ?k)" using v m by simp_all
  have il: "is_legal (tentative ?k) = is_legal c"
    using is_legal_tentative_at_rest[OF vk] by (simp add: is_legal_accl)
  have pt: "pos (tentative ?k) = pos c"
    using tentative_at_rest[OF vk] by simp
  from u show ?thesis
  proof (cases rule: update_Inr_cases)
    case (legal w)
    then have "legal_at c (pos c)" using il by (simp add: legal_at_def)
    moreover have "clamp_vel (max_vel ?k) (vel ?k) = zeros2"
      using v m by (simp add: clamp_vel_zero)
    ultimately show ?thesis
      using legal pt by (simp add: record_history_fields)
  next
    case illegal
    then have "\<not> legal_at c (pos c)" using il by (simp add: legal_at_def)
    then show ?thesis using illegal by (simp add: record_history_fields)
  qed
qed

lemma stuck_forever:
  assumes "run_n n c = Inr cn" and "vel c = zeros2" and "0 \<le> snd (max_vel c)"
    and "\<not> legal_at c (pos c)"
  shows "pos cn = pos c \<and> vel cn = zeros2"
  using assms
proof (induction n arbitrary: c)
  case 0
  then show ?case by simp
next
  case (Suc n)
  from Suc.prems(1) obtain ps c' where r: "run c = Inr (ps, c')" and rn: "run_n n c' = Inr cn"
    by (auto split: sum.splits)
  have s: "pos c' = pos c" "vel c' = zeros2"
    using step_at_rest[OF r Suc.prems(2,3)] Suc.prems(4) by simp_all
  have f: "track c' = track c" "end_x c' = end_x c" "max_vel c' = max_vel c"
    using run_frame[OF r] by simp_all
  have "\<not> legal_at c' (pos c')"
    using Suc.prems(4) s(1) legal_at_same_track[OF f(1,2)] by simp
  then have "pos cn = pos c' \<and> vel cn = zeros2"
    using Suc.IH[OF rn s(2)] Suc.prems(3) f(3) by simp
  with s show ?case by simp
qed

lemma rest_forever:
  assumes "run_n n c = Inr cn" and "vel c = zeros2" and "0 \<le> snd (max_vel c)"
    and "\<forall>ps. accl_function c ps = [0, 0]"
  shows "pos cn = pos c \<and> vel cn = zeros2"
  using assms
proof (induction n arbitrary: c)
  case 0
  then show ?case by simp
next
  case (Suc n)
  from Suc.prems(1) obtain ps c' where r: "run c = Inr (ps, c')" and rn: "run_n n c' = Inr cn"
    by (auto split: sum.splits)
  have z: "iadd_broadcast zeros2 [0, 0] = Inr zeros2"
    by (simp add: iadd_broadcast_def zeros2_def)
  have a: "accl_function c ps = [0, 0]" using Suc.prems(4) by simp
  have s: "pos c' = pos c" "vel c' = zeros2"
    using step_at_rest[OF r Suc.prems(2,3)] by (simp_all add: a z split: if_splits)
  have f: "max_vel c' = max_vel c" "accl_function c' = accl_function c"
    using run_frame[OF r] by simp_all
  have "pos cn = pos c' \<and> vel cn = zeros2"
    using Suc.IH[OF rn s(2)] Suc.prems(3,4) f by simp
  with s show ?case by simp
qed

lemma crash_step:
  assumes r: "run c = Inr (ps, c1)" and i: "is_legal (tentative c) = Inr False"
  shows "pos c1 = pos c \<and> vel c1 = zeros2 \<and> accl c1 = [0, 0]"
proof -
  let ?k = "c\<lparr> accl := accl_function c ps \<rparr>"
  have "is_legal (tentative ?k) = Inr False"
    using i by (simp add: tentative_accl is_legal_accl)
  from update_illegal[OF this] run_Inr[OF r] show ?thesis
    by (simp add: record_history_fields)
qed

text \<open>
  C4, as the code has it. A step whose legality test fails leaves the car at the position
  it had before the step, with zero velocity and zero acceleration. The next step, when
  it returns, leaves the position unchanged, and its legality test is the one of that
  position: when the position is legal, the velocity after that step is the output of the
  acceleration function added to the zero velocity; when it is illegal, the velocity stays
  zero. Position and velocity are unchanged after any number of further steps that return
  when the rolled-back position is illegal, and also when the acceleration function
  always answers \<open>(0, 0)\<close>.
\<close>

theorem crash_then_next_step:
  assumes "run c = Inr (ps, c1)" and "is_legal (tentative c) = Inr False"
    and "0 \<le> snd (max_vel c)"
  shows "pos c1 = pos c \<and> vel c1 = zeros2 \<and> accl c1 = [0, 0]
       \<and> (\<forall>ps2 c2. run c1 = Inr (ps2, c2) \<longrightarrow>
             pos c2 = pos c1
             \<and> (if legal_at c (pos c)
                then iadd_broadcast zeros2 (accl_function c ps2) = Inr (vel c2)
                else vel c2 = zeros2))
       \<and> (\<not> legal_at c (pos c) \<longrightarrow>
             (\<forall>n cn. run_n n c1 = Inr cn \<longrightarrow> pos cn = pos c \<and> vel cn = zeros2))
       \<and> ((\<forall>qs. accl_function c qs = [0, 0]) \<longrightarrow>
             (\<forall>n cn. run_n n c1 = Inr cn \<longrightarrow> pos cn = pos c \<and> vel cn = zeros2))"
proof -
  have c1: "pos c1 = pos c" "vel c1 = zeros2" "accl c1 = [0, 0]"
    using crash_step[OF assms(1,2)] by simp_all
  have f: "track c1 = track c" "end_x c1 = end_x c" "max_vel c1 = max_vel c"
    "accl_function c1 = accl_function c"
    using run_frame[OF assms(1)] by simp_all
  have m1: "0 \<le> snd (max_vel c1)" using assms(3) f(3) by simp
  have la: "legal_at c1 (pos c1) = legal_at c (pos c)"
    using legal_at_same_track[OF f(1,2)] c1(1) by simp
  have next_step: "\<forall>ps2 c2. run c1 = Inr (ps2, c2) \<longrightarrow>
             pos c2 = pos c1
             \<and> (if legal_at c (pos c)
                then iadd_broadcast zeros2 (accl_function c ps2) = Inr (vel c2)
                else vel c2 = zeros2)"
  proof (intro allI impI)
    fix ps2 c2 assume "run c1 = Inr (ps2, c2)"
    from step_at_rest[OF this c1(2) m1] show "pos c2 = pos c1
             \<and> (if legal_at c (pos c)
                then iadd_broadcast zeros2 (accl_function c ps2) = Inr (vel c2)
                else vel c2 = zeros2)"
      by (simp add: la f(4) cong: if_cong)
  qed
  have stuck: "\<not> legal_at c (pos c) \<longrightarrow>
             (\<forall>n cn. run_n n c1 = Inr cn \<longrightarrow> pos cn = pos c \<and> vel cn = zeros2)"
  proof (intro allI impI)
    fix n cn assume nl: "\<not> legal_at c (pos c)" and rn: "run_n n c1 = Inr cn"
    have "\<not> legal_at c1 (pos c1)" using nl la by simp
    from stuck_forever[OF rn c1(2) m1 this] show "pos cn = pos c \<and> vel cn = zeros2"
      using c1(1) by simp
  qed
  have rest: "(\<forall>qs. accl_function c qs = [0, 0]) \<longrightarrow>
             (\<forall>n cn. run_n n c1 = Inr cn \<longrightarrow> pos cn = pos c \<and> vel cn = zeros2)"
  proof (intro allI impI)
    fix n cn assume z: "\<forall>qs. accl_function c qs = [0, 0]" and rn: "run_n n c1 = Inr cn"
    have "\<forall>qs. accl_function c1 qs = [0, 0]" using z f(4) by simp
    from rest_forever[OF rn c1(2) m1 this] show "pos cn = pos c \<and> vel cn = zeros2"
      using c1(1) by simp
  qed
  from c1 next_step stuck rest show ?thesis by blast
qed


lemma crash_update1:
  "update ((flat_car (1, 49 / 10) (0, 10))\<lparr> accl := [1, 0] \<rparr>) = Inr crash_car1"
  by (simp add: step_eval flat_car_def flat_track_def crash_car1_def)

lemma crash_update2: "update (crash_car1\<lparr> accl := [1, 0] \<rparr>) = Inr crash_car2"
  by (simp add: step_eval flat_car_def flat_track_def crash_car1_def crash_car2_def)

lemma crash_update3: "update (crash_car2\<lparr> accl := [1, 0] \<rparr>) = Inr crash_car3"
  by (simp add: step_eval flat_car_def flat_track_def crash_car2_def crash_car3_def)

lemma crash_cars_aligned: "aligned crash_car1" "aligned crash_car2"
  by (simp_all add: aligned_def crash_car1_def crash_car2_def flat_car_def flat_track_def)

lemma crash_cars_policy:
  "accl_function (flat_car p v) = (\<lambda>ps. [1, 0])"
  "accl_function crash_car1 = (\<lambda>ps. [1, 0])" "accl_function crash_car2 = (\<lambda>ps. [1, 0])"
  by (simp_all add: crash_car1_def crash_car2_def flat_car_def forward_policy_def fun_eq_iff)

lemma crash_run_1: "run_n 1 (flat_car (1, 49 / 10) (0, 10)) = Inr crash_car1"
  using run_n_Suc_const[OF aligned_flat_car crash_cars_policy(1) crash_update1, of 0] by simp

lemma crash_run_2: "run_n 2 (flat_car (1, 49 / 10) (0, 10)) = Inr crash_car2"
proof -
  have "run_n (Suc (Suc 0)) (flat_car (1, 49 / 10) (0, 10)) = run_n (Suc 0) crash_car1"
    by (rule run_n_Suc_const[OF aligned_flat_car crash_cars_policy(1) crash_update1])
  also have "\<dots> = run_n 0 crash_car2"
    by (rule run_n_Suc_const[OF crash_cars_aligned(1) crash_cars_policy(2) crash_update2])
  finally show ?thesis by (simp add: numeral_2_eq_2)
qed

lemma crash_run_3: "run_n 3 (flat_car (1, 49 / 10) (0, 10)) = Inr crash_car3"
proof -
  have "run_n (Suc (Suc (Suc 0))) (flat_car (1, 49 / 10) (0, 10)) = run_n (Suc (Suc 0)) crash_car1"
    by (rule run_n_Suc_const[OF aligned_flat_car crash_cars_policy(1) crash_update1])
  also have "\<dots> = run_n (Suc 0) crash_car2"
    by (rule run_n_Suc_const[OF crash_cars_aligned(1) crash_cars_policy(2) crash_update2])
  also have "\<dots> = run_n 0 crash_car3"
    by (rule run_n_Suc_const[OF crash_cars_aligned(2) crash_cars_policy(3) crash_update3])
  finally show ?thesis by (simp add: numeral_3_eq_3)
qed

text \<open>
  C4 as stated fails. A crashed car moves again on the small track: the car at
  \<open>(1, 4.9)\<close> with velocity \<open>(0, 10)\<close> is rolled back in the first step, has velocity
  \<open>(1, 0)\<close> after the second and stands at \<open>(2, 4.9)\<close> after the third.
\<close>

theorem crash_fixed_point_counterexample:
  "is_legal (tentative (flat_car (1, 49 / 10) (0, 10))) = Inr False
   \<and> pos (final (run_n 1 (flat_car (1, 49 / 10) (0, 10)))) = (1, 49 / 10)
   \<and> vel (final (run_n 1 (flat_car (1, 49 / 10) (0, 10)))) = (0, 0)
   \<and> run_n 3 (flat_car (1, 49 / 10) (0, 10)) = Inr crash_car3
   \<and> vel (final (run_n 2 (flat_car (1, 49 / 10) (0, 10)))) = (1, 0)
   \<and> pos (final (run_n 3 (flat_car (1, 49 / 10) (0, 10)))) = (2, 49 / 10)"
proof -
  have a: "pos (final (run_n 1 (flat_car (1, 49 / 10) (0, 10)))) = (1, 49 / 10)"
    "vel (final (run_n 1 (flat_car (1, 49 / 10) (0, 10)))) = (0, 0)"
    unfolding crash_run_1 by (simp_all add: crash_car1_def flat_car_def)
  have b: "vel (final (run_n 2 (flat_car (1, 49 / 10) (0, 10)))) = (1, 0)"
    unfolding crash_run_2 by (simp add: crash_car2_def flat_car_def)
  have c: "pos (final (run_n 3 (flat_car (1, 49 / 10) (0, 10)))) = (2, 49 / 10)"
    unfolding crash_run_3 by (simp add: crash_car3_def flat_car_def)
  from flat_crash_tentative a b c crash_run_3 show ?thesis by blast
qed

lemma stuck_update1: "update ((flat_car (1, 6) (0, 1))\<lparr> accl := [1, 0] \<rparr>) = Inr stuck_car"
  by (simp add: step_eval flat_car_def flat_track_def stuck_car_def)

lemma stuck_update2: "update (stuck_car\<lparr> accl := [1, 0] \<rparr>) = Inr stuck_car2"
  by (simp add: step_eval flat_car_def flat_track_def stuck_car_def stuck_car2_def)

lemma rest_update1: "update (rest_car\<lparr> accl := [0, 0] \<rparr>) = Inr rest_car1"
  by (simp add: step_eval flat_car_def flat_track_def rest_car_def rest_car1_def)

lemma rest_update2: "update (rest_car1\<lparr> accl := [0, 0] \<rparr>) = Inr rest_car2"
  by (simp add: step_eval flat_car_def flat_track_def rest_car1_def rest_car2_def)

lemma rest_cars_facts:
  "aligned rest_car" "aligned rest_car1"
  "accl_function rest_car = (\<lambda>ps. [0, 0])" "accl_function rest_car1 = (\<lambda>ps. [0, 0])"
  by (simp_all add: aligned_def rest_car_def rest_car1_def flat_car_def flat_track_def
      rest_policy_def fun_eq_iff)

theorem crash_then_next_step_witness:
  "is_legal (tentative (flat_car (1, 49 / 10) (0, 10))) = Inr False
   \<and> legal_at (flat_car (1, 49 / 10) (0, 10)) (1, 49 / 10)
   \<and> (\<exists>ps ps2. run (flat_car (1, 49 / 10) (0, 10)) = Inr (ps, crash_car1)
         \<and> run crash_car1 = Inr (ps2, crash_car2))
   \<and> pos crash_car1 = (1, 49 / 10) \<and> vel crash_car1 = zeros2
   \<and> pos crash_car2 = (1, 49 / 10)
   \<and> iadd_broadcast zeros2 [1, 0] = Inr (vel crash_car2)
   \<and> is_legal (tentative (flat_car (1, 6) (0, 1))) = Inr False
   \<and> \<not> legal_at (flat_car (1, 6) (0, 1)) (1, 6)
   \<and> (\<exists>ps. run (flat_car (1, 6) (0, 1)) = Inr (ps, stuck_car))
   \<and> run_n 1 stuck_car = Inr stuck_car2
   \<and> pos stuck_car2 = (1, 6) \<and> vel stuck_car2 = zeros2
   \<and> is_legal (tentative rest_car) = Inr False
   \<and> legal_at rest_car (pos rest_car)
   \<and> (\<forall>qs. accl_function rest_car qs = [0, 0])
   \<and> (\<exists>ps. run rest_car = Inr (ps, rest_car1))
   \<and> run_n 1 rest_car1 = Inr rest_car2
   \<and> pos rest_car2 = (1, 49 / 10) \<and> vel rest_car2 = zeros2"
proof -
  let ?k = "flat_car (1, 49 / 10) (0, 10)"
  let ?j = "flat_car (1, 6) (0, 1)"
  obtain ps where r1: "run ?k = Inr (ps, crash_car1)"
    using run_const[OF aligned_flat_car crash_cars_policy(1) crash_update1] by blast
  obtain ps2 where r2: "run crash_car1 = Inr (ps2, crash_car2)"
    using run_const[OF crash_cars_aligned(1) crash_cars_policy(2) crash_update2] by blast
  have mk: "0 \<le> snd (max_vel ?k)" "0 \<le> snd (max_vel ?j)" "0 \<le> snd (max_vel rest_car)"
    by (simp_all add: flat_car_def rest_car_def)
  have pk: "pos ?k = (1, 49 / 10)" "pos ?j = (1, 6)" "pos rest_car = (1, 49 / 10)"
    by (simp_all add: flat_car_def rest_car_def)
  have lk: "legal_at ?k (1, 49 / 10)"
    by (simp add: legal_at_def step_eval flat_car_def flat_track_def)
  have fk: "accl_function ?k ps2 = [1, 0]" by (simp add: flat_car_def forward_policy_def)
  note k = crash_then_next_step [OF r1 flat_crash_tentative mk(1)]
  have k1: "pos crash_car1 = (1, 49 / 10)" "vel crash_car1 = zeros2"
    using k pk(1) by simp_all
  have k2: "pos crash_car2 = (1, 49 / 10) \<and> iadd_broadcast zeros2 [1, 0] = Inr (vel crash_car2)"
    using k r2 lk fk pk(1) by auto
  have ij: "is_legal (tentative ?j) = Inr False"
    by (simp add: step_eval flat_car_def flat_track_def)
  have nj: "\<not> legal_at ?j (1, 6)"
    by (simp add: legal_at_def step_eval flat_car_def flat_track_def)
  obtain qs where s1: "run ?j = Inr (qs, stuck_car)"
    using run_const[OF aligned_flat_car crash_cars_policy(1) stuck_update1] by blast
  have sa: "aligned stuck_car" "accl_function stuck_car = (\<lambda>ps. [1, 0])"
    by (simp_all add: aligned_def stuck_car_def flat_car_def flat_track_def forward_policy_def fun_eq_iff)
  have sr: "run_n 1 stuck_car = Inr stuck_car2"
    using run_n_Suc_const[OF sa stuck_update2, of 0] by simp
  note j = crash_then_next_step [OF s1 ij mk(2)]
  have "\<forall>n cn. run_n n stuck_car = Inr cn \<longrightarrow> pos cn = pos ?j \<and> vel cn = zeros2"
    using j nj pk(2) by simp
  then have j2: "pos stuck_car2 = (1, 6) \<and> vel stuck_car2 = zeros2"
    using sr pk(2) by metis
  have ir: "is_legal (tentative rest_car) = Inr False"
    by (simp add: step_eval rest_car_def flat_car_def flat_track_def)
  have lr: "legal_at rest_car (pos rest_car)"
    by (simp add: legal_at_def step_eval rest_car_def flat_car_def flat_track_def)
  have zr: "\<forall>qs. accl_function rest_car qs = [0, 0]"
    by (simp add: rest_cars_facts(3))
  obtain rs where t1: "run rest_car = Inr (rs, rest_car1)"
    using run_const[OF rest_cars_facts(1,3) rest_update1] by blast
  have tr: "run_n 1 rest_car1 = Inr rest_car2"
    using run_n_Suc_const[OF rest_cars_facts(2,4) rest_update2, of 0] by simp
  note q = crash_then_next_step [OF t1 ir mk(3)]
  have "\<forall>n cn. run_n n rest_car1 = Inr cn \<longrightarrow> pos cn = pos rest_car \<and> vel cn = zeros2"
    using q zr by blast
  then have q2: "pos rest_car2 = (1, 49 / 10) \<and> vel rest_car2 = zeros2"
    using tr pk(3) by metis
  have a: "\<exists>ps ps2. run ?k = Inr (ps, crash_car1) \<and> run crash_car1 = Inr (ps2, crash_car2)"
    using r1 r2 by blast
  have b: "\<exists>ps. run ?j = Inr (ps, stuck_car)" using s1 by blast
  have d: "\<exists>ps. run rest_car = Inr (ps, rest_car1)" using t1 by blast
  from flat_crash_tentative lk a k1 k2 ij nj b sr j2 ir lr zr d tr q2 show ?thesis
    by (intro conjI) simp_all
qed

section \<open>The output of the acceleration function\<close>

lemma iadd_broadcast_length:
  "iadd_broadcast v a =
     (if length a = 1 then Inr (fst v + a ! 0, snd v + a ! 0)
      else if length a = 2 then Inr (fst v + a ! 0, snd v + a ! 1)
      else Inl ValueError)"
proof (cases a)
  case Nil
  then show ?thesis by (simp add: iadd_broadcast_def)
next
  case (Cons x xs)
  note a = this
  show ?thesis
  proof (cases xs)
    case Nil
    with a show ?thesis by (simp add: iadd_broadcast_def)
  next
    case (Cons y ys)
    with a show ?thesis by (cases ys) (simp_all add: iadd_broadcast_def)
  qed
qed

lemma run_sensed:
  assumes "get_surrounding c (pos c) (vel c) = Inr ds"
    and "get_surrounding c (last_pos c) (last_vel c) = Inr lds"
    and "ps = ds @ [fst (vel c), snd (vel c)] @ lds @ [fst (last_vel c), snd (last_vel c)]"
  shows "run c = (case update (c\<lparr> accl := accl_function c ps \<rparr>) of
                    Inl ec \<Rightarrow> Inl ec | Inr c' \<Rightarrow> Inr (ps, c'))"
  using assms by (simp add: run_def Let_def split: sum.splits)

text \<open>
  C7, as the code has it. \<open>run\<close> stores the output of the acceleration function without
  any check. On a legal step an output of one element is added to both velocity components
  and recorded in the history, an output of two elements is added componentwise, and any
  other length makes \<open>self.vel += self.accl\<close> raise numpy's ValueError after the position
  has been moved and before anything is recorded. On an illegal step no output raises: the
  acceleration is overwritten with zeros.
\<close>

theorem policy_output_unchecked:
  assumes "get_surrounding c (pos c) (vel c) = Inr ds"
    and "get_surrounding c (last_pos c) (last_vel c) = Inr lds"
    and "ps = ds @ [fst (vel c), snd (vel c)] @ lds @ [fst (last_vel c), snd (last_vel c)]"
    and "a = accl_function c ps"
  shows "(is_legal (tentative c) = Inr True \<and> length a = 1 \<longrightarrow>
            (\<exists>c'. run c = Inr (ps, c') \<and> accl c' = a \<and> last (accl_history c') = a
                \<and> vel c' = (fst (vel (clamped c)) + a ! 0, snd (vel (clamped c)) + a ! 0)))
       \<and> (is_legal (tentative c) = Inr True \<and> length a = 2 \<longrightarrow>
            (\<exists>c'. run c = Inr (ps, c') \<and> accl c' = a \<and> last (accl_history c') = a
                \<and> vel c' = (fst (vel (clamped c)) + a ! 0, snd (vel (clamped c)) + a ! 1)))
       \<and> (is_legal (tentative c) = Inr True \<and> length a \<noteq> 1 \<and> length a \<noteq> 2 \<longrightarrow>
            run c = Inl (ValueError, (tentative c)\<lparr> accl := a \<rparr>))
       \<and> (is_legal (tentative c) = Inr False \<longrightarrow>
            (\<exists>c'. run c = Inr (ps, c') \<and> accl c' = [0, 0] \<and> vel c' = zeros2 \<and> pos c' = pos c))"
proof -
  let ?k = "c\<lparr> accl := a \<rparr>"
  have r: "run c = (case update ?k of Inl ec \<Rightarrow> Inl ec | Inr c' \<Rightarrow> Inr (ps, c'))"
    using run_sensed[OF assms(1-3)] assms(4) by simp
  have il: "is_legal (tentative ?k) = is_legal (tentative c)"
    by (simp add: tentative_accl is_legal_accl)
  have cv: "clamp_vel (max_vel ?k) (vel ?k) = vel (clamped c)"
    by (simp add: clamped_fields)
  have one: "is_legal (tentative c) = Inr True \<and> length a = 1 \<longrightarrow>
            (\<exists>c'. run c = Inr (ps, c') \<and> accl c' = a \<and> last (accl_history c') = a
                \<and> vel c' = (fst (vel (clamped c)) + a ! 0, snd (vel (clamped c)) + a ! 0))"
  proof
    assume h: "is_legal (tentative c) = Inr True \<and> length a = 1"
    have "iadd_broadcast (clamp_vel (max_vel ?k) (vel ?k)) (accl ?k)
            = Inr (fst (vel (clamped c)) + a ! 0, snd (vel (clamped c)) + a ! 0)"
      unfolding cv using h by (simp add: iadd_broadcast_length)
    from update_legal[OF _ this] h il show "\<exists>c'. run c = Inr (ps, c') \<and> accl c' = a
                \<and> last (accl_history c') = a
                \<and> vel c' = (fst (vel (clamped c)) + a ! 0, snd (vel (clamped c)) + a ! 0)"
      by (simp add: r record_history_fields tentative_fields)
  qed
  have two: "is_legal (tentative c) = Inr True \<and> length a = 2 \<longrightarrow>
            (\<exists>c'. run c = Inr (ps, c') \<and> accl c' = a \<and> last (accl_history c') = a
                \<and> vel c' = (fst (vel (clamped c)) + a ! 0, snd (vel (clamped c)) + a ! 1))"
  proof
    assume h: "is_legal (tentative c) = Inr True \<and> length a = 2"
    have "iadd_broadcast (clamp_vel (max_vel ?k) (vel ?k)) (accl ?k)
            = Inr (fst (vel (clamped c)) + a ! 0, snd (vel (clamped c)) + a ! 1)"
      unfolding cv using h by (simp add: iadd_broadcast_length)
    from update_legal[OF _ this] h il show "\<exists>c'. run c = Inr (ps, c') \<and> accl c' = a
                \<and> last (accl_history c') = a
                \<and> vel c' = (fst (vel (clamped c)) + a ! 0, snd (vel (clamped c)) + a ! 1)"
      by (simp add: r record_history_fields tentative_fields)
  qed
  have other: "is_legal (tentative c) = Inr True \<and> length a \<noteq> 1 \<and> length a \<noteq> 2 \<longrightarrow>
            run c = Inl (ValueError, (tentative c)\<lparr> accl := a \<rparr>)"
  proof
    assume h: "is_legal (tentative c) = Inr True \<and> length a \<noteq> 1 \<and> length a \<noteq> 2"
    have "iadd_broadcast (clamp_vel (max_vel ?k) (vel ?k)) (accl ?k) = Inl ValueError"
      using h by (simp add: iadd_broadcast_length)
    from update_legal_error[OF _ this] h il show "run c = Inl (ValueError, (tentative c)\<lparr> accl := a \<rparr>)"
      by (simp add: r tentative_accl)
  qed
  have ill: "is_legal (tentative c) = Inr False \<longrightarrow>
            (\<exists>c'. run c = Inr (ps, c') \<and> accl c' = [0, 0] \<and> vel c' = zeros2 \<and> pos c' = pos c)"
  proof
    assume h: "is_legal (tentative c) = Inr False"
    from update_illegal[of ?k] h il show "\<exists>c'. run c = Inr (ps, c') \<and> accl c' = [0, 0]
        \<and> vel c' = zeros2 \<and> pos c' = pos c"
      by (simp add: r record_history_fields)
  qed
  from one two other ill show ?thesis by blast
qed


lemma scalar_update: "update (scalar_car\<lparr> accl := [1] \<rparr>) = Inr scalar_car1"
  by (simp add: step_eval flat_car_def flat_track_def scalar_car_def scalar_car1_def)

lemma scalar_car_facts: "aligned scalar_car" "accl_function scalar_car = (\<lambda>ps. [1])"
  by (simp_all add: aligned_def scalar_car_def flat_car_def flat_track_def scalar_policy_def fun_eq_iff)

text \<open>
  C7 as stated fails. An output of the wrong arity is not rejected: with an acceleration
  function that returns the one-element array \<open>[1]\<close>, the step on the small track raises
  nothing, adds 1 to both velocity components and records \<open>[1]\<close> in the history.
\<close>

theorem policy_contract_counterexample:
  "scalar_policy [] = [1]
   \<and> run_n 1 scalar_car = Inr scalar_car1
   \<and> vel scalar_car1 = (1, 1)
   \<and> accl scalar_car1 = [1]
   \<and> accl_history scalar_car1 = [[0, 0], [1]]"
proof -
  have "run_n 1 scalar_car = Inr scalar_car1"
    using run_n_Suc_const[OF scalar_car_facts scalar_update, of 0] by simp
  then show ?thesis
    by (simp add: scalar_policy_def scalar_car1_def flat_car_def)
qed

theorem policy_output_unchecked_witness:
  "(\<exists>ps c'. run scalar_car = Inr (ps, c') \<and> accl c' = [1] \<and> last (accl_history c') = [1]
        \<and> vel c' = (1, 1))
   \<and> (\<exists>ps c'. run (flat_car (1, 0) (0, 0)) = Inr (ps, c') \<and> accl c' = [1, 0]
        \<and> vel c' = (1, 0))
   \<and> (\<exists>c'. run ((flat_car (1, 0) (0, 0))\<lparr> accl_function := (\<lambda>ps. [1, 2, 3]) \<rparr>)
             = Inl (ValueError, c') \<and> accl c' = [1, 2, 3] \<and> pos_history c' = [(1, 0)])
   \<and> (\<exists>ps c'. run ((flat_car (1, 49 / 10) (0, 10))\<lparr> accl_function := (\<lambda>ps. [1, 2, 3]) \<rparr>)
             = Inr (ps, c') \<and> accl c' = [0, 0] \<and> vel c' = zeros2 \<and> pos c' = (1, 49 / 10))"
proof -
  have one: "\<exists>ps c'. run scalar_car = Inr (ps, c') \<and> accl c' = [1]
      \<and> last (accl_history c') = [1] \<and> vel c' = (1, 1)"
  proof -
    let ?k = scalar_car
    obtain ds where ds: "get_surrounding ?k (pos ?k) (vel ?k) = Inr ds"
      using get_surrounding_ok[OF scalar_car_facts(1)] by blast
    obtain lds where lds: "get_surrounding ?k (last_pos ?k) (last_vel ?k) = Inr lds"
      using get_surrounding_ok[OF scalar_car_facts(1)] by blast
    define ps where "ps = ds @ [fst (vel ?k), snd (vel ?k)] @ lds @ [fst (last_vel ?k), snd (last_vel ?k)]"
    have a: "[1] = accl_function ?k ps" by (simp add: scalar_car_facts(2))
    have l: "is_legal (tentative ?k) = Inr True"
      by (simp add: step_eval scalar_car_def flat_car_def flat_track_def)
    have v: "vel (clamped ?k) = (0, 0)"
      by (simp add: clamped_def clamp_vel_def scalar_car_def flat_car_def Let_def)
    from policy_output_unchecked [OF ds lds ps_def a] l v show ?thesis by auto
  qed
  have two: "\<exists>ps c'. run (flat_car (1, 0) (0, 0)) = Inr (ps, c') \<and> accl c' = [1, 0]
      \<and> vel c' = (1, 0)"
  proof -
    let ?k = "flat_car (1, 0) (0, 0)"
    obtain ds where ds: "get_surrounding ?k (pos ?k) (vel ?k) = Inr ds"
      using get_surrounding_ok[OF aligned_flat_car] by blast
    obtain lds where lds: "get_surrounding ?k (last_pos ?k) (last_vel ?k) = Inr lds"
      using get_surrounding_ok[OF aligned_flat_car] by blast
    define ps where "ps = ds @ [fst (vel ?k), snd (vel ?k)] @ lds @ [fst (last_vel ?k), snd (last_vel ?k)]"
    have a: "[1, 0] = accl_function ?k ps" by (simp add: flat_car_def forward_policy_def)
    have l: "is_legal (tentative ?k) = Inr True"
      by (simp add: step_eval flat_car_def flat_track_def)
    have v: "vel (clamped ?k) = (0, 0)"
      by (simp add: clamped_def clamp_vel_def flat_car_def Let_def)
    from policy_output_unchecked [OF ds lds ps_def a] l v show ?thesis by auto
  qed
  have three: "\<exists>c'. run ((flat_car (1, 0) (0, 0))\<lparr> accl_function := (\<lambda>ps. [1, 2, 3]) \<rparr>)
             = Inl (ValueError, c') \<and> accl c' = [1, 2, 3] \<and> pos_history c' = [(1, 0)]"
  proof -
    let ?k = "(flat_car (1, 0) (0, 0))\<lparr> accl_function := (\<lambda>ps. [1, 2, 3]) \<rparr>"
    have al: "aligned ?k" by (simp add: aligned_def flat_car_def flat_track_def)
    obtain ds where ds: "get_surrounding ?k (pos ?k) (vel ?k) = Inr ds"
      using get_surrounding_ok[OF al] by blast
    obtain lds where lds: "get_surrounding ?k (last_pos ?k) (last_vel ?k) = Inr lds"
      using get_surrounding_ok[OF al] by blast
    define ps where "ps = ds @ [fst (vel ?k), snd (vel ?k)] @ lds @ [fst (last_vel ?k), snd (last_vel ?k)]"
    have a: "[1, 2, 3] = accl_function ?k ps" by simp
    have l: "is_legal (tentative ?k) = Inr True"
      by (simp add: step_eval flat_car_def flat_track_def)
    have h: "pos_history (tentative ?k) = [(1, 0)]"
      by (simp add: tentative_fields flat_car_def)
    from policy_output_unchecked [OF ds lds ps_def a] l
    have "run ?k = Inl (ValueError, (tentative ?k)\<lparr> accl := [1, 2, 3] \<rparr>)" by simp
    with h show ?thesis by simp
  qed
  have four: "\<exists>ps c'. run ((flat_car (1, 49 / 10) (0, 10))\<lparr> accl_function := (\<lambda>ps. [1, 2, 3]) \<rparr>)
             = Inr (ps, c') \<and> accl c' = [0, 0] \<and> vel c' = zeros2 \<and> pos c' = (1, 49 / 10)"
  proof -
    let ?k = "(flat_car (1, 49 / 10) (0, 10))\<lparr> accl_function := (\<lambda>ps. [1, 2, 3]) \<rparr>"
    have al: "aligned ?k" by (simp add: aligned_def flat_car_def flat_track_def)
    obtain ds where ds: "get_surrounding ?k (pos ?k) (vel ?k) = Inr ds"
      using get_surrounding_ok[OF al] by blast
    obtain lds where lds: "get_surrounding ?k (last_pos ?k) (last_vel ?k) = Inr lds"
      using get_surrounding_ok[OF al] by blast
    define ps where "ps = ds @ [fst (vel ?k), snd (vel ?k)] @ lds @ [fst (last_vel ?k), snd (last_vel ?k)]"
    have a: "[1, 2, 3] = accl_function ?k ps" by simp
    have l: "is_legal (tentative ?k) = Inr False"
      by (simp add: step_eval flat_car_def flat_track_def)
    have p: "pos ?k = (1, 49 / 10)" by (simp add: flat_car_def)
    from policy_output_unchecked [OF ds lds ps_def a] l p show ?thesis by auto
  qed
  from one two three four show ?thesis by blast
qed

section \<open>The readings of the sensors\<close>
























lemma upt_small: "[0..<2] = [0, 1]" "[0..<3] = [0, 1, 2]" "[0..<4] = [0, 1, 2, 3]"
  by code_simp+

lemma flat_vision_tensor_at_rest:
  "vision_tensor_of (flat_car q w) (px, py) (0, 0) =
   [[(px, py), (px, py), (px, py), (px, py)],
    [(px, py + 1), (px, py - 1), (px + 1, py + 1), (px + 1, py - 1)],
    [(px, py + 2), (px, py - 2), (px + 2, py + 2), (px + 2, py - 2)]]"
  by (simp add: vision_tensor_of_def rot_matrix_of_def norm2_def eye2_def transpose2_def dot_row_def
      vadd_def flat_car_def flat_track_def upt_small Let_def)

text \<open>
  C2 at a failing input. On the small track the car at \<open>(1, 4)\<close> at rest looks up along
  the ray \<open>(0, 1)\<close>: the samples \<open>4, 5, 6\<close> against the upper boundary \<open>5\<close> have the signs
  \<open>-1, 0, 1\<close>, so \<open>np.diff\<close> is not zero at the indices 0 and 1. With two indices
  \<open>reshape(2)\<close> raises ValueError and the reading is \<open>max_dist\<close>, not the distance to the
  sample of the first index.
\<close>

theorem first_crossing_missed:
  "crossings (flat_car (1, 4) (0, 0)) (1, 4) (0, 0) 0 = [0, 1]
   \<and> get_surrounding (flat_car (1, 4) (0, 0)) (1, 4) (0, 0) = Inr [1000, 1000, 1000, 1000]"
proof -
  have "crossings (flat_car (1, 4) (0, 0)) (1, 4) (0, 0) 0 = [0, 1]"
    unfolding crossings_def flat_vision_tensor_at_rest
    by (simp add: boundary_of_def np_diff_def np_argwhere_def flat_car_def flat_track_def upt_small)
  moreover have "get_surrounding (flat_car (1, 4) (0, 0)) (1, 4) (0, 0) = Inr [1000, 1000, 1000, 1000]"
    unfolding get_surrounding_def flat_vision_tensor_at_rest
    by (simp add: ray_distance_def np_sub_def np_diff_def np_argwhere_def flat_car_def flat_track_def
        upt_small Let_def)
  ultimately show ?thesis by blast
qed

section \<open>A step is a function of the car\<close>

lemma same_inputs_fields:
  assumes "same_inputs c1 c2"
  shows "accl_function c2 = accl_function c1" "eyes c2 = eyes c1" "track c2 = track c1"
    "pos c2 = pos c1" "max_dist c2 = max_dist c1" "vel c2 = vel c1" "last_vel c2 = last_vel c1"
    "max_vel c2 = max_vel c1" "last_pos c2 = last_pos c1" "end_x c2 = end_x c1"
proof -
  have e: "forget_records c1 = forget_records c2" using assms by (simp add: same_inputs_def)
  have "accl_function (forget_records c2) = accl_function (forget_records c1)"
    "eyes (forget_records c2) = eyes (forget_records c1)"
    "track (forget_records c2) = track (forget_records c1)"
    "pos (forget_records c2) = pos (forget_records c1)"
    "max_dist (forget_records c2) = max_dist (forget_records c1)"
    "vel (forget_records c2) = vel (forget_records c1)"
    "last_vel (forget_records c2) = last_vel (forget_records c1)"
    "max_vel (forget_records c2) = max_vel (forget_records c1)"
    "last_pos (forget_records c2) = last_pos (forget_records c1)"
    "end_x (forget_records c2) = end_x (forget_records c1)"
    by (simp_all only: e)
  then show "accl_function c2 = accl_function c1" "eyes c2 = eyes c1" "track c2 = track c1"
    "pos c2 = pos c1" "max_dist c2 = max_dist c1" "vel c2 = vel c1" "last_vel c2 = last_vel c1"
    "max_vel c2 = max_vel c1" "last_pos c2 = last_pos c1" "end_x c2 = end_x c1"
    by (simp_all add: forget_records_def)
qed

lemma same_inputsI:
  assumes "accl_function c2 = accl_function c1" "eyes c2 = eyes c1" "track c2 = track c1"
    "pos c2 = pos c1" "max_dist c2 = max_dist c1" "vel c2 = vel c1" "last_vel c2 = last_vel c1"
    "max_vel c2 = max_vel c1" "last_pos c2 = last_pos c1" "end_x c2 = end_x c1"
    and "car.more c2 = car.more c1"
  shows "same_inputs c1 c2"
  unfolding same_inputs_def forget_records_def
  using assms by (intro car.equality) simp_all

lemma same_inputs_rewrite:
  assumes "same_inputs c1 c2"
  shows "c2 = c1\<lparr> accl := accl c2, pos_history := pos_history c2,
                   vel_history := vel_history c2, accl_history := accl_history c2 \<rparr>"
proof -
  have e: "forget_records c1 = forget_records c2" using assms by (simp add: same_inputs_def)
  have "car.more (forget_records c2) = car.more (forget_records c1)" by (simp only: e)
  then have m: "car.more c2 = car.more c1" by (simp add: forget_records_def)
  show ?thesis
    by (rule car.equality) (simp_all add: same_inputs_fields[OF assms] m)
qed

lemma get_surrounding_inputs:
  assumes "eyes c2 = eyes c1" "track c2 = track c1" "max_dist c2 = max_dist c1"
  shows "get_surrounding c2 p v = get_surrounding c1 p v"
proof -
  have vt: "vision_tensor_of c2 p v = vision_tensor_of c1 p v"
    using assms by (simp add: vision_tensor_of_def)
  have "ray_distance c2 vt p i = ray_distance c1 vt p i" for vt i
    unfolding ray_distance_def assms by (rule refl)
  then have "ray_distance c2 (vision_tensor_of c1 p v) p = ray_distance c1 (vision_tensor_of c1 p v) p"
    by (rule ext)
  then show ?thesis
    using assms vt by (simp add: get_surrounding_def)
qed

lemma update_rehistory:
  "update (c\<lparr> pos_history := hp, vel_history := hv, accl_history := ha \<rparr>) =
     (case update c of
        Inl (e, d) \<Rightarrow> Inl (e, d\<lparr> pos_history := hp, vel_history := hv, accl_history := ha \<rparr>)
      | Inr d \<Rightarrow> Inr (d\<lparr> pos_history := hp @ [pos d], vel_history := hv @ [vel d],
                         accl_history := ha @ [accl d] \<rparr>))"
proof -
  let ?c = "c\<lparr> pos_history := hp, vel_history := hv, accl_history := ha \<rparr>"
  have t: "tentative ?c = (tentative c)\<lparr> pos_history := hp, vel_history := hv, accl_history := ha \<rparr>"
    by (simp add: tentative_def clamped_def Let_def)
  have il: "is_legal (tentative ?c) = is_legal (tentative c)"
    unfolding t by (rule is_legal_pos_only) simp_all
  show ?thesis
  proof (cases "is_legal (tentative c)")
    case (Inl e)
    then show ?thesis
      using il by (simp add: update_legality_error t)
  next
    case (Inr b)
    show ?thesis
    proof (cases b)
      case True
      show ?thesis
      proof (cases "iadd_broadcast (clamp_vel (max_vel c) (vel c)) (accl c)")
        case (Inl e)
        have "update c = Inl (e, tentative c)"
          using Inr True Inl by (simp add: update_legal_error)
        moreover have "update ?c = Inl (e, tentative ?c)"
          using Inr True Inl il by (intro update_legal_error) simp_all
        ultimately show ?thesis by (simp add: t)
      next
        case (Inr w)
        have "update c = Inr (record_history ((tentative c)\<lparr> vel := w \<rparr>))"
          using \<open>is_legal (tentative c) = Inr b\<close> True Inr by (simp add: update_legal)
        moreover have "update ?c = Inr (record_history ((tentative ?c)\<lparr> vel := w \<rparr>))"
          using \<open>is_legal (tentative c) = Inr b\<close> True Inr il by (intro update_legal) simp_all
        ultimately show ?thesis by (simp add: t record_history_def)
      qed
    next
      case False
      have "update c = Inr (record_history ((tentative c)\<lparr> pos := pos c, vel := zeros2, accl := [0, 0] \<rparr>))"
        using Inr False by (simp add: update_illegal)
      moreover have "update ?c = Inr (record_history ((tentative ?c)\<lparr> pos := pos ?c, vel := zeros2, accl := [0, 0] \<rparr>))"
        using Inr False il by (intro update_illegal) simp_all
      ultimately show ?thesis by (simp add: t record_history_def)
    qed
  qed
qed


lemma run_cases:
  obtains (sense1) e where "get_surrounding c (pos c) (vel c) = Inl e" and "run c = Inl (e, c)"
  | (sense2) ds e where "get_surrounding c (pos c) (vel c) = Inr ds"
      and "get_surrounding c (last_pos c) (last_vel c) = Inl e" and "run c = Inl (e, c)"
  | (upd) ds lds where "get_surrounding c (pos c) (vel c) = Inr ds"
      and "get_surrounding c (last_pos c) (last_vel c) = Inr lds"
      and "run c = (case update (c\<lparr> accl := accl_function c (params_of c ds lds) \<rparr>) of
                      Inl ec \<Rightarrow> Inl ec | Inr c' \<Rightarrow> Inr (params_of c ds lds, c'))"
proof (cases "get_surrounding c (pos c) (vel c)")
  case (Inl e)
  then have "run c = Inl (e, c)" by (simp add: run_def)
  with Inl sense1 show ?thesis by blast
next
  case (Inr ds)
  note ds = this
  show ?thesis
  proof (cases "get_surrounding c (last_pos c) (last_vel c)")
    case (Inl e)
    then have "run c = Inl (e, c)" using ds by (simp add: run_def)
    with ds Inl sense2 show ?thesis by blast
  next
    case (Inr lds)
    have "run c = (case update (c\<lparr> accl := accl_function c (params_of c ds lds) \<rparr>) of
                      Inl ec \<Rightarrow> Inl ec | Inr c' \<Rightarrow> Inr (params_of c ds lds, c'))"
      by (rule run_sensed[OF ds Inr]) (simp add: params_of_def)
    with ds Inr upd show ?thesis by blast
  qed
qed

lemma same_inputs_rehistory:
  "same_inputs d (d\<lparr> pos_history := hp, vel_history := hv, accl_history := ha \<rparr>)"
  by (simp add: same_inputs_def forget_records_def)

lemma same_inputs_refl: "same_inputs c c"
  by (simp add: same_inputs_def)

lemma step_agrees:
  assumes s: "same_inputs c1 c2"
  shows "(\<forall>ps d1. run c1 = Inr (ps, d1) \<longrightarrow>
            (\<exists>d2. run c2 = Inr (ps, d2) \<and> same_inputs d1 d2 \<and> accl d2 = accl d1
               \<and> pos_history d1 = pos_history c1 @ [pos d1]
               \<and> pos_history d2 = pos_history c2 @ [pos d1]
               \<and> vel_history d1 = vel_history c1 @ [vel d1]
               \<and> vel_history d2 = vel_history c2 @ [vel d1]
               \<and> accl_history d1 = accl_history c1 @ [accl d1]
               \<and> accl_history d2 = accl_history c2 @ [accl d1]))
       \<and> (\<forall>e d1. run c1 = Inl (e, d1) \<longrightarrow> (\<exists>d2. run c2 = Inl (e, d2) \<and> same_inputs d1 d2))"
proof -
  note f = same_inputs_fields[OF s]
  have g1: "get_surrounding c2 (pos c2) (vel c2) = get_surrounding c1 (pos c1) (vel c1)"
    using get_surrounding_inputs[OF f(2,3,5)] f by simp
  have g2: "get_surrounding c2 (last_pos c2) (last_vel c2) = get_surrounding c1 (last_pos c1) (last_vel c1)"
    using get_surrounding_inputs[OF f(2,3,5)] f by simp
  show ?thesis
  proof (cases c1 rule: run_cases)
    case (sense1 e)
    have "run c2 = Inl (e, c2)" using sense1(1) g1 by (simp add: run_def)
    with sense1(2) s show ?thesis by simp
  next
    case (sense2 ds e)
    have "run c2 = Inl (e, c2)" using sense2(1,2) g1 g2 by (simp add: run_def)
    with sense2(3) s show ?thesis by simp
  next
    case (upd ds lds)
    define ps where "ps = params_of c1 ds lds"
    define k where "k = c1\<lparr> accl := accl_function c1 ps \<rparr>"
    have p2: "params_of c2 ds lds = ps" by (simp add: params_of_def ps_def f)
    have r1: "run c1 = (case update k of Inl ec \<Rightarrow> Inl ec | Inr c' \<Rightarrow> Inr (ps, c'))"
      using upd(3) unfolding ps_def k_def .
    have "c2\<lparr> accl := accl_function c2 ps \<rparr> =
         (c1\<lparr> accl := accl c2, pos_history := pos_history c2,
              vel_history := vel_history c2, accl_history := accl_history c2 \<rparr>)
           \<lparr> accl := accl_function c2 ps \<rparr>"
      by (rule arg_cong[where f = "\<lambda>c. c\<lparr> accl := accl_function c2 ps \<rparr>",
            OF same_inputs_rewrite[OF s]])
    also have "\<dots> = k\<lparr> pos_history := pos_history c2, vel_history := vel_history c2,
             accl_history := accl_history c2 \<rparr>"
      by (simp add: k_def f(1))
    finally have k2: "c2\<lparr> accl := accl_function c2 ps \<rparr> =
         k\<lparr> pos_history := pos_history c2, vel_history := vel_history c2,
             accl_history := accl_history c2 \<rparr>" .
    have "run c2 = (case update (c2\<lparr> accl := accl_function c2 (params_of c2 ds lds) \<rparr>) of
                      Inl ec \<Rightarrow> Inl ec | Inr c' \<Rightarrow> Inr (params_of c2 ds lds, c'))"
      by (rule run_sensed) (simp_all add: g1 g2 upd(1,2) params_of_def)
    then have r2: "run c2 = (case update (k\<lparr> pos_history := pos_history c2,
                       vel_history := vel_history c2, accl_history := accl_history c2 \<rparr>) of
                      Inl ec \<Rightarrow> Inl ec | Inr c' \<Rightarrow> Inr (ps, c'))"
      unfolding p2 k2 .
    have hk: "pos_history k = pos_history c1" "vel_history k = vel_history c1"
      "accl_history k = accl_history c1" by (simp_all add: k_def)
    show ?thesis
    proof (cases "update k")
      case (Inl ec)
      obtain e d where ec: "ec = (e, d)" by (cases ec)
      show ?thesis
        using r1 r2 Inl ec by (simp add: update_rehistory same_inputs_rehistory)
    next
      case (Inr d)
      note h = update_history[OF Inr]
      show ?thesis
        using r1 r2 Inr h hk by (simp add: update_rehistory same_inputs_rehistory)
    qed
  qed
qed

lemma car_init_draws:
  assumes "car_init trk f u1 = Inr k1" and "car_init trk f u2 = Inr k2"
  shows "k2 = k1\<lparr> pos := (fst (pos k1), u2), pos_history := [(fst (pos k1), u2)] \<rparr>"
  using assms by (auto simp: car_init_def split: if_splits)


lemma long_car_init: "car_init long_track forward_policy u = Inr (long_car\<lparr> pos := (1, u), pos_history := [(1, u)] \<rparr>)"
proof -
  have "hd (map real [0..<1003]) = 0" by (simp add: hd_map)
  moreover have "last (map real [0..<1003]) = 1002" by (simp add: last_map)
  moreover have "map real [0..<1003] \<noteq> []" by simp
  ultimately show ?thesis
    by (simp add: car_init_def long_car_def long_track_def)
qed

text \<open>
  C10. A step is a function of the car: it reads the track, the rays, the position and
  velocity (current and previous), the bounds and the acceleration function, and nothing
  else. Two cars that agree on these (they may differ in the recorded histories and in the
  stored acceleration) pass the same parameters to the acceleration function, append the
  same entries to their histories and agree again afterwards, or raise the same exception;
  in particular equal cars have equal steps. The constructor depends on chance only through
  the drawn lateral position: two constructions on the same track differ in nothing else.
\<close>

theorem step_deterministic:
  "(same_inputs c1 c2 \<longrightarrow>
      (\<forall>ps d1. run c1 = Inr (ps, d1) \<longrightarrow>
            (\<exists>d2. run c2 = Inr (ps, d2) \<and> same_inputs d1 d2 \<and> accl d2 = accl d1
               \<and> pos_history d1 = pos_history c1 @ [pos d1]
               \<and> pos_history d2 = pos_history c2 @ [pos d1]
               \<and> vel_history d1 = vel_history c1 @ [vel d1]
               \<and> vel_history d2 = vel_history c2 @ [vel d1]
               \<and> accl_history d1 = accl_history c1 @ [accl d1]
               \<and> accl_history d2 = accl_history c2 @ [accl d1]))
       \<and> (\<forall>e d1. run c1 = Inl (e, d1) \<longrightarrow> (\<exists>d2. run c2 = Inl (e, d2) \<and> same_inputs d1 d2)))
   \<and> (c1 = c2 \<longrightarrow> run c1 = run c2)
   \<and> (car_init trk f u1 = Inr k1 \<and> car_init trk f u2 = Inr k2 \<longrightarrow>
         k2 = k1\<lparr> pos := (fst (pos k1), u2), pos_history := [(fst (pos k1), u2)] \<rparr>)"
proof (intro conjI impI)
  assume "same_inputs c1 c2"
  from step_agrees[OF this] show "\<forall>ps d1. run c1 = Inr (ps, d1) \<longrightarrow>
            (\<exists>d2. run c2 = Inr (ps, d2) \<and> same_inputs d1 d2 \<and> accl d2 = accl d1
               \<and> pos_history d1 = pos_history c1 @ [pos d1]
               \<and> pos_history d2 = pos_history c2 @ [pos d1]
               \<and> vel_history d1 = vel_history c1 @ [vel d1]
               \<and> vel_history d2 = vel_history c2 @ [vel d1]
               \<and> accl_history d1 = accl_history c1 @ [accl d1]
               \<and> accl_history d2 = accl_history c2 @ [accl d1])"
    by blast
next
  assume "same_inputs c1 c2"
  from step_agrees[OF this]
  show "\<forall>e d1. run c1 = Inl (e, d1) \<longrightarrow> (\<exists>d2. run c2 = Inl (e, d2) \<and> same_inputs d1 d2)"
    by blast
next
  assume "c1 = c2"
  then show "run c1 = run c2" by simp
next
  assume "car_init trk f u1 = Inr k1 \<and> car_init trk f u2 = Inr k2"
  then show "k2 = k1\<lparr> pos := (fst (pos k1), u2), pos_history := [(fst (pos k1), u2)] \<rparr>"
    using car_init_draws by blast
qed

lemma triple_policy_raises:
  "\<exists>d. run ((flat_car (1, 0) (0, 0))\<lparr> accl_function := (\<lambda>ps. [1, 2, 3]) \<rparr>) = Inl (ValueError, d)"
proof -
  let ?k = "(flat_car (1, 0) (0, 0))\<lparr> accl_function := (\<lambda>ps. [1, 2, 3]) \<rparr>"
  have al: "aligned ?k" by (simp add: aligned_def flat_car_def flat_track_def)
  obtain ps where r: "run ?k = (case update (?k\<lparr> accl := accl_function ?k ps \<rparr>) of
                          Inl ec \<Rightarrow> Inl ec | Inr c' \<Rightarrow> Inr (ps, c'))"
    using run_aligned[OF al] by blast
  have "\<exists>d. update (?k\<lparr> accl := [1, 2, 3] \<rparr>) = Inl (ValueError, d)"
    by (simp add: step_eval flat_car_def flat_track_def)
  then show ?thesis using r by auto
qed

theorem step_deterministic_witness:
  "same_inputs (flat_car (1, 0) (0, 0)) ((flat_car (1, 0) (0, 0))\<lparr> accl := [9], pos_history := [(7, 7)] \<rparr>)
   \<and> (\<exists>ps d1 d2. run (flat_car (1, 0) (0, 0)) = Inr (ps, d1)
         \<and> run ((flat_car (1, 0) (0, 0))\<lparr> accl := [9], pos_history := [(7, 7)] \<rparr>) = Inr (ps, d2)
         \<and> same_inputs d1 d2 \<and> accl d2 = accl d1
         \<and> pos_history d1 = [(1, 0), (1, 0)] \<and> pos_history d2 = [(7, 7), (1, 0)])
   \<and> (\<exists>e d1 d2. run ((flat_car (1, 0) (0, 0))\<lparr> accl_function := (\<lambda>ps. [1, 2, 3]) \<rparr>) = Inl (e, d1)
         \<and> run ((flat_car (1, 0) (0, 0))\<lparr> accl_function := (\<lambda>ps. [1, 2, 3]), accl_history := [] \<rparr>)
             = Inl (e, d2)
         \<and> same_inputs d1 d2)
   \<and> car_init long_track forward_policy 500 = Inr long_car
   \<and> car_init long_track forward_policy 600
        = Inr (long_car\<lparr> pos := (fst (pos long_car), 600), pos_history := [(fst (pos long_car), 600)] \<rparr>)"
proof -
  define a where "a = flat_car (1, 0) (0, 0)"
  define b where "b = a\<lparr> accl := [9], pos_history := [(7, 7)] \<rparr>"
  define a3 where "a3 = a\<lparr> accl_function := (\<lambda>ps. [1, 2, 3]) \<rparr>"
  define b3 where "b3 = a\<lparr> accl_function := (\<lambda>ps. [1, 2, 3]), accl_history := [] \<rparr>"
  define d1 where "d1 = (flat_car (1, 0) (1, 0))\<lparr> accl := [1, 0], last_pos := (1, 0),
            pos_history := [(1, 0), (1, 0)], vel_history := [(0, 0), (1, 0)],
            accl_history := [[0, 0], [1, 0]] \<rparr>"
  define k6 where "k6 = long_car\<lparr> pos := (1, 600), pos_history := [(1, 600)] \<rparr>"
  have sab: "same_inputs a b" by (simp add: same_inputs_def forget_records_def b_def)
  have sab3: "same_inputs a3 b3" by (simp add: same_inputs_def forget_records_def a3_def b3_def)
  obtain ps where ra: "run a = Inr (ps, d1)"
    unfolding a_def d1_def
    using run_const[OF aligned_flat_car crash_cars_policy(1) flat_step_legal_start] by blast
  have h1: "pos_history d1 = [(1, 0), (1, 0)]" "pos d1 = (1, 0)"
    by (simp_all add: d1_def flat_car_def)
  have hb: "pos_history b = [(7, 7)]" by (simp add: b_def)
  have i1: "car_init long_track forward_policy 500 = Inr long_car"
    using long_car_init[of 500] by (simp add: long_car_def)
  have i2: "car_init long_track forward_policy 600 = Inr k6"
    unfolding k6_def by (rule long_car_init)
  note t = step_deterministic [of a b long_track forward_policy 500 long_car 600 k6]
  note t3 = step_deterministic [of a3 b3 long_track forward_policy 500 long_car 600 k6]
  have "\<exists>d2. run b = Inr (ps, d2) \<and> same_inputs d1 d2 \<and> accl d2 = accl d1
               \<and> pos_history d1 = pos_history a @ [pos d1]
               \<and> pos_history d2 = pos_history b @ [pos d1]
               \<and> vel_history d1 = vel_history a @ [vel d1]
               \<and> vel_history d2 = vel_history b @ [vel d1]
               \<and> accl_history d1 = accl_history a @ [accl d1]
               \<and> accl_history d2 = accl_history b @ [accl d1]"
    by (rule t[THEN conjunct1, THEN mp, OF sab, THEN conjunct1, THEN spec, THEN spec, THEN mp, OF ra])
  then obtain d2 where d2: "run b = Inr (ps, d2)" "same_inputs d1 d2" "accl d2 = accl d1"
    "pos_history d2 = pos_history b @ [pos d1]" by blast
  have one: "\<exists>ps d1 d2. run a = Inr (ps, d1) \<and> run b = Inr (ps, d2)
         \<and> same_inputs d1 d2 \<and> accl d2 = accl d1
         \<and> pos_history d1 = [(1, 0), (1, 0)] \<and> pos_history d2 = [(7, 7), (1, 0)]"
    using ra d2 h1 hb by auto
  obtain d3 where r3: "run a3 = Inl (ValueError, d3)"
    using triple_policy_raises unfolding a3_def a_def by blast
  have "\<exists>d4. run b3 = Inl (ValueError, d4) \<and> same_inputs d3 d4"
    by (rule t3[THEN conjunct1, THEN mp, OF sab3, THEN conjunct2, THEN spec, THEN spec, THEN mp, OF r3])
  then have two: "\<exists>e d1 d2. run a3 = Inl (e, d1) \<and> run b3 = Inl (e, d2) \<and> same_inputs d1 d2"
    using r3 by blast
  have three: "k6 = long_car\<lparr> pos := (fst (pos long_car), 600), pos_history := [(fst (pos long_car), 600)] \<rparr>"
    using t[THEN conjunct2, THEN conjunct2] i1 i2 by blast
  from sab one two i1 i2 three show ?thesis
    unfolding a_def b_def a3_def b3_def by simp
qed

section \<open>Sensing on the heap\<close>

lemma frame_refl: "frame h h"
  by (simp add: frame_def)

lemma frame_trans: "frame h1 h2 \<Longrightarrow> frame h2 h3 \<Longrightarrow> frame h1 h3"
  by (auto simp: frame_def)

lemma alloc_props:
  assumes "alloc x h = (a, h')"
  shows "a = limit h" "limit h' = Suc (limit h)" "cells h' a = Some x" "frame h h'"
  using assms by (auto simp: alloc_def frame_def)

lemma assign_props:
  "limit (assign a x h) = limit h" "cells (assign a x h) a = Some x"
  "b \<noteq> a \<Longrightarrow> cells (assign a x h) b = cells h b"
  by (simp_all add: assign_def)

lemma assign_frame:
  assumes "frame h0 h" and "limit h0 \<le> a"
  shows "frame h0 (assign a x h)"
  using assms by (auto simp: frame_def assign_def)

lemma frame_cells: "frame h h' \<Longrightarrow> a < limit h \<Longrightarrow> cells h' a = cells h a"
  by (simp add: frame_def)

lemma frame_limit: "frame h h' \<Longrightarrow> limit h \<le> limit h'"
  by (simp add: frame_def)

lemma frame_readers:
  assumes "frame h h'" and "a < limit h"
  shows "arr2_at h' a = arr2_at h a" "arr1_at h' a = arr1_at h a" "mat_at h' a = mat_at h a"
    "rows_at h' a = rows_at h a" "tensor_at h' a = tensor_at h a" "ints_at h' a = ints_at h a"
  using frame_cells[OF assms]
  by (simp_all add: arr2_at_def arr1_at_def mat_at_def rows_at_def tensor_at_def ints_at_def)

lemma allocatedD:
  assumes "allocated obj h"
  shows "obj_eyes obj < limit h" "obj_track0 obj < limit h" "obj_track1 obj < limit h"
    "obj_track2 obj < limit h" "obj_pos obj < limit h" "obj_accl obj < limit h" "obj_vel obj < limit h"
    "obj_last_vel obj < limit h" "obj_max_vel obj < limit h" "obj_last_pos obj < limit h"
    "\<And>a. a \<in> set (obj_pos_history obj) \<Longrightarrow> a < limit h"
    "\<And>a. a \<in> set (obj_vel_history obj) \<Longrightarrow> a < limit h"
    "\<And>a. a \<in> set (obj_accl_history obj) \<Longrightarrow> a < limit h"
  using assms by (simp_all add: allocated_def obj_addrs_def)

lemma car_of_frame:
  assumes "allocated obj h" and "frame h h'"
  shows "car_of obj h' = car_of obj h"
proof -
  note a = allocatedD[OF assms(1)]
  note r = frame_readers[OF assms(2)]
  have "map (arr2_at h') (obj_pos_history obj) = map (arr2_at h) (obj_pos_history obj)"
    by (rule map_cong) (simp_all add: r a)
  moreover have "map (arr2_at h') (obj_vel_history obj) = map (arr2_at h) (obj_vel_history obj)"
    by (rule map_cong) (simp_all add: r a)
  moreover have "map (arr1_at h') (obj_accl_history obj) = map (arr1_at h) (obj_accl_history obj)"
    by (rule map_cong) (simp_all add: r a)
  ultimately show ?thesis
    by (simp add: car_of_def r a)
qed

lemma allocated_frame: "allocated obj h \<Longrightarrow> frame h h' \<Longrightarrow> allocated obj h'"
  by (auto simp: allocated_def frame_def)

lemma reader_alloc:
  assumes "alloc x h = (a, h')"
  shows "x = Arr2 u \<Longrightarrow> arr2_at h' a = u" "x = Mat m \<Longrightarrow> mat_at h' a = m"
    "x = Rows rs \<Longrightarrow> rows_at h' a = rs" "x = Tensor t \<Longrightarrow> tensor_at h' a = t"
    "x = Ints ns \<Longrightarrow> ints_at h' a = ns" "x = Arr1 xs \<Longrightarrow> arr1_at h' a = xs"
  using alloc_props(3)[OF assms]
  by (simp_all add: arr2_at_def arr1_at_def mat_at_def rows_at_def tensor_at_def ints_at_def)

lemma rot_matrix_st_props:
  assumes "rot_matrix_st v h = (r, h')" and "v < limit h"
  shows "frame h h'" "r < limit h'" "limit h \<le> r" "mat_at h' r = rot_matrix_of (arr2_at h v)"
proof -
  have "frame h h' \<and> r < limit h' \<and> limit h \<le> r \<and> mat_at h' r = rot_matrix_of (arr2_at h v)"
  proof (cases "norm2 (arr2_at h v) = 0")
    case True
    with assms(1) have al: "alloc (Mat eye2) h = (r, h')" by (simp add: rot_matrix_st_def)
    show ?thesis
      using alloc_props[OF al] reader_alloc(2)[OF al] True by (simp add: rot_matrix_of_def)
  next
    case False
    obtain v1 h1 where n: "normalize_st v h = (v1, h1)" by (cases "normalize_st v h")
    have al1: "alloc (Arr2 (fst (arr2_at h v) / norm2 (arr2_at h v),
                            snd (arr2_at h v) / norm2 (arr2_at h v))) h = (v1, h1)"
      using n False by (simp add: normalize_st_def Let_def)
    have v1: "arr2_at h1 v1 = normalize (arr2_at h v)"
      using reader_alloc(1)[OF al1] False by (simp add: normalize_def Let_def)
    have al2: "alloc (Mat (transpose2 (arr2_at h1 v1, (- snd (arr2_at h1 v1), fst (arr2_at h1 v1))))) h1
                = (r, h')"
      using assms(1) False n by (simp add: rot_matrix_st_def)
    have "frame h h'" using alloc_props(4)[OF al1] alloc_props(4)[OF al2] by (rule frame_trans)
    moreover have "r < limit h'" "limit h \<le> r"
      using alloc_props(1,2)[OF al1] alloc_props(1,2)[OF al2] by simp_all
    moreover have "mat_at h' r = rot_matrix_of (arr2_at h v)"
      using reader_alloc(2)[OF al2] False v1 by (simp add: rot_matrix_of_def Let_def)
    ultimately show ?thesis by blast
  qed
  then show "frame h h'" "r < limit h'" "limit h \<le> r" "mat_at h' r = rot_matrix_of (arr2_at h v)"
    by blast+
qed

lemma vision_tensor_st_props:
  assumes vs: "vision_tensor_st obj p v h = (vt, h')"
    and al: "allocated obj h" and p: "p < limit h" and v: "v < limit h"
  shows "frame h h'" "limit h \<le> vt" "vt < limit h'"
    "tensor_at h' vt = vision_tensor_of (car_of obj h) (arr2_at h p) (arr2_at h v)"
proof -
  obtain r h1 where r: "rot_matrix_st v h = (r, h1)" by (cases "rot_matrix_st v h")
  note rp = rot_matrix_st_props[OF r v]
  define re_val where "re_val = map (\<lambda>e. dot_row e (transpose2 (mat_at h1 r))) (rows_at h1 (obj_eyes obj))"
  obtain re h2 where re: "alloc (Rows re_val) h1 = (re, h2)" by (cases "alloc (Rows re_val) h1")
  define xv_val where "xv_val = [0..<length (arr1_at h2 (obj_track0 obj))]"
  obtain xv h3 where xv: "alloc (Ints xv_val) h2 = (xv, h3)" by (cases "alloc (Ints xv_val) h2")
  define t_val where "t_val = map (\<lambda>k. map (\<lambda>e. (fst e * real k, snd e * real k))
                                          (rows_at h3 re)) (ints_at h3 xv)"
  obtain t h4 where t: "alloc (Tensor t_val) h3 = (t, h4)" by (cases "alloc (Tensor t_val) h3")
  define h5 where "h5 = assign t (Tensor (map (map (\<lambda>s. vadd s (arr2_at h4 p))) (tensor_at h4 t))) h4"
  have res: "vision_tensor_st obj p v h = (t, h5)"
    unfolding vision_tensor_st_def Let_def r prod.case re_val_def[symmetric] re
      xv_val_def[symmetric] xv t_val_def[symmetric] t h5_def[symmetric] by (rule refl)
  then have vt: "vt = t" and h': "h' = h5" using vs by simp_all
  have f1: "frame h h1" by (rule rp(1))
  have f2: "frame h h2" using f1 alloc_props(4)[OF re] by (rule frame_trans)
  have f3: "frame h h3" using f2 alloc_props(4)[OF xv] by (rule frame_trans)
  have f4: "frame h h4" using f3 alloc_props(4)[OF t] by (rule frame_trans)
  have tt: "t = limit h3" "limit h4 = Suc (limit h3)" using alloc_props(1,2)[OF t] by simp_all
  have ht: "limit h \<le> t" using tt frame_limit[OF f3] by simp
  have f5: "frame h h5" unfolding h5_def using f4 ht by (rule assign_frame)
  have top5: "t < limit h5" unfolding h5_def using tt by (simp add: assign_props)
  note a = allocatedD[OF al]
  have eyes1: "rows_at h1 (obj_eyes obj) = rows_at h (obj_eyes obj)"
    by (rule frame_readers(4)[OF f1 a(1)])
  have tr2: "arr1_at h2 (obj_track0 obj) = arr1_at h (obj_track0 obj)"
    by (rule frame_readers(2)[OF f2 a(2)])
  have re3: "rows_at h3 re = re_val"
  proof -
    have "re < limit h2" using alloc_props(1,2)[OF re] by simp
    from frame_readers(4)[OF alloc_props(4)[OF xv] this] reader_alloc(3)[OF re]
    show ?thesis by simp
  qed
  have xv3: "ints_at h3 xv = xv_val" by (rule reader_alloc(5)[OF xv refl])
  have t4: "tensor_at h4 t = t_val" by (rule reader_alloc(4)[OF t refl])
  have p4: "arr2_at h4 p = arr2_at h p" by (rule frame_readers(1)[OF f4 p])
  have "tensor_at h5 t = map (map (\<lambda>s. vadd s (arr2_at h p))) t_val"
    unfolding h5_def by (simp add: tensor_at_def assign_props t4[unfolded tensor_at_def] p4)
  also have "\<dots> = vision_tensor_of (car_of obj h) (arr2_at h p) (arr2_at h v)"
    by (simp add: t_val_def re3 xv3 re_val_def xv_val_def eyes1 tr2 rp(4) vision_tensor_of_def
        car_of_def Let_def comp_def)
  finally have val: "tensor_at h5 t = vision_tensor_of (car_of obj h) (arr2_at h p) (arr2_at h v)" .
  show "frame h h'" "limit h \<le> vt" "vt < limit h'"
    "tensor_at h' vt = vision_tensor_of (car_of obj h) (arr2_at h p) (arr2_at h v)"
    using f5 ht top5 val by (simp_all add: vt h')
qed

lemma ray_st_props:
  assumes rs: "ray_st obj vt p dists i h = (r, h')"
    and f: "frame h0 h" and al: "allocated obj h0" and p: "p < limit h0"
    and d: "limit h0 \<le> dists" and ne: "vt \<noteq> dists"
  shows "frame h0 h'" "tensor_at h' vt = tensor_at h vt"
    "case ray_distance (car_of obj h0) (tensor_at h vt) (arr2_at h0 p) i of
       Inl e \<Rightarrow> r = Some e
     | Inr x \<Rightarrow> r = None \<and> arr1_at h' dists = (arr1_at h dists)[i := x]"
proof -
  have c: "car_of obj h = car_of obj h0" by (rule car_of_frame[OF al f])
  have pp: "arr2_at h p = arr2_at h0 p" by (rule frame_readers(1)[OF f p])
  have "frame h0 h' \<and> tensor_at h' vt = tensor_at h vt
      \<and> (case ray_distance (car_of obj h0) (tensor_at h vt) (arr2_at h0 p) i of
       Inl e \<Rightarrow> r = Some e
     | Inr x \<Rightarrow> r = None \<and> arr1_at h' dists = (arr1_at h dists)[i := x])"
  proof (cases "ray_distance (car_of obj h0) (tensor_at h vt) (arr2_at h0 p) i")
    case (Inl e)
    then have "r = Some e" "h' = h" using rs by (simp_all add: ray_st_def c pp)
    with Inl f show ?thesis by simp
  next
    case (Inr x)
    then have r: "r = None" and h': "h' = assign dists (Arr1 ((arr1_at h dists)[i := x])) h"
      using rs by (simp_all add: ray_st_def c pp)
    have "frame h0 h'" unfolding h' using f d by (rule assign_frame)
    moreover have "tensor_at h' vt = tensor_at h vt"
      unfolding h' using ne by (simp add: tensor_at_def assign_props)
    moreover have "arr1_at h' dists = (arr1_at h dists)[i := x]"
      unfolding h' by (simp add: arr1_at_def assign_props)
    ultimately show ?thesis using Inr r by simp
  qed
  then show "frame h0 h'" "tensor_at h' vt = tensor_at h vt"
    "case ray_distance (car_of obj h0) (tensor_at h vt) (arr2_at h0 p) i of
       Inl e \<Rightarrow> r = Some e
     | Inr x \<Rightarrow> r = None \<and> arr1_at h' dists = (arr1_at h dists)[i := x]"
    by blast+
qed

lemma rays_st_props:
  assumes "rays_st obj vt p dists js h = (r, h')"
    and "frame h0 h" and "allocated obj h0" and "p < limit h0"
    and "limit h0 \<le> dists" and "vt \<noteq> dists" and "distinct js"
  shows "frame h0 h'
       \<and> (case r of
            Some e \<Rightarrow> ray_loop (ray_distance (car_of obj h0) (tensor_at h vt) (arr2_at h0 p)) js = Inl e
          | None \<Rightarrow>
              (\<exists>xs. ray_loop (ray_distance (car_of obj h0) (tensor_at h vt) (arr2_at h0 p)) js = Inr xs
                 \<and> length (arr1_at h' dists) = length (arr1_at h dists)
                 \<and> (\<forall>j<length js. js ! j < length (arr1_at h dists)
                        \<longrightarrow> arr1_at h' dists ! (js ! j) = xs ! j)
                 \<and> (\<forall>k. k \<notin> set js \<longrightarrow> arr1_at h' dists ! k = arr1_at h dists ! k)))"
  using assms
proof (induction js arbitrary: h r h')
  case Nil
  then show ?case by simp
next
  case (Cons i js)
  let ?body = "ray_distance (car_of obj h0) (tensor_at h vt) (arr2_at h0 p)"
  obtain r1 h1 where s1: "ray_st obj vt p dists i h = (r1, h1)" by (cases "ray_st obj vt p dists i h")
  note sp = ray_st_props[OF s1 Cons.prems(2-6)]
  show ?case
  proof (cases "?body i")
    case (Inl e)
    then have "r1 = Some e" using sp(3) by simp
    then have "r = Some e" "h' = h1" using Cons.prems(1) s1 by simp_all
    with Inl sp(1) show ?thesis by simp
  next
    case (Inr x)
    then have r1: "r1 = None" and w: "arr1_at h1 dists = (arr1_at h dists)[i := x]"
      using sp(3) by simp_all
    have rest: "rays_st obj vt p dists js h1 = (r, h')"
      using Cons.prems(1) s1 r1 by simp
    have dj: "distinct js" and ij: "i \<notin> set js" using Cons.prems(7) by simp_all
    note ih = Cons.IH[OF rest sp(1) Cons.prems(3-6) dj, unfolded sp(2)]
    show ?thesis
    proof (cases r)
      case (Some e)
      then have "ray_loop ?body js = Inl e" using ih by simp
      with Some Inr ih show ?thesis by simp
    next
      case None
      then obtain xs where xs: "ray_loop ?body js = Inr xs"
        and len: "length (arr1_at h' dists) = length (arr1_at h1 dists)"
        and wr: "\<forall>j<length js. js ! j < length (arr1_at h1 dists)
                        \<longrightarrow> arr1_at h' dists ! (js ! j) = xs ! j"
        and un: "\<forall>k. k \<notin> set js \<longrightarrow> arr1_at h' dists ! k = arr1_at h1 dists ! k"
        using ih by auto
      have l: "ray_loop ?body (i # js) = Inr (x # xs)" using Inr xs by simp
      have len': "length (arr1_at h' dists) = length (arr1_at h dists)"
        using len w by simp
      have wr': "\<forall>j<length (i # js). (i # js) ! j < length (arr1_at h dists)
                        \<longrightarrow> arr1_at h' dists ! ((i # js) ! j) = (x # xs) ! j"
      proof (intro allI impI)
        fix j assume j: "j < length (i # js)" and b: "(i # js) ! j < length (arr1_at h dists)"
        show "arr1_at h' dists ! ((i # js) ! j) = (x # xs) ! j"
        proof (cases j)
          case 0
          then have "arr1_at h' dists ! i = arr1_at h1 dists ! i" using un ij by simp
          with 0 b w show ?thesis by simp
        next
          case (Suc m)
          with j b wr w show ?thesis by simp
        qed
      qed
      have un': "\<forall>k. k \<notin> set (i # js) \<longrightarrow> arr1_at h' dists ! k = arr1_at h dists ! k"
        using un w by simp
      from None ih l len' wr' un' show ?thesis by simp
    qed
  qed
qed

lemma ray_st_limit: "ray_st obj vt p dists i h = (r, h') \<Longrightarrow> limit h' = limit h"
  by (auto simp: ray_st_def assign_props split: sum.splits)

lemma rays_st_limit: "rays_st obj vt p dists js h = (r, h') \<Longrightarrow> limit h' = limit h"
proof (induction js arbitrary: h)
  case Nil
  then show ?case by simp
next
  case (Cons i js)
  obtain r1 h1 where s1: "ray_st obj vt p dists i h = (r1, h1)" by (cases "ray_st obj vt p dists i h")
  have t1: "limit h1 = limit h" by (rule ray_st_limit[OF s1])
  show ?case
  proof (cases r1)
    case None
    with Cons.prems s1 have "rays_st obj vt p dists js h1 = (r, h')" by simp
    from Cons.IH[OF this] t1 show ?thesis by simp
  next
    case (Some e)
    with Cons.prems s1 have "h' = h1" by simp
    with t1 show ?thesis by simp
  qed
qed

lemma get_surrounding_st_props:
  assumes gs: "get_surrounding_st obj p v h = (r, h')"
    and al: "allocated obj h" and p: "p < limit h" and v: "v < limit h"
  shows "frame h h'"
    "case r of
       Inl e \<Rightarrow> get_surrounding (car_of obj h) (arr2_at h p) (arr2_at h v) = Inl e
     | Inr d \<Rightarrow> limit h \<le> d \<and> d < limit h'
                \<and> get_surrounding (car_of obj h) (arr2_at h p) (arr2_at h v) = Inr (arr1_at h' d)"
proof -
  obtain vt h1 where vs: "vision_tensor_st obj p v h = (vt, h1)"
    by (cases "vision_tensor_st obj p v h")
  note vp = vision_tensor_st_props[OF vs al p v]
  define n where "n = length (rows_at h1 (obj_eyes obj))"
  obtain dists h2 where da: "alloc (Arr1 (replicate n 0)) h1 = (dists, h2)"
    by (cases "alloc (Arr1 (replicate n 0)) h1")
  note dp = alloc_props[OF da]
  have n2: "length (rows_at h2 (obj_eyes obj)) = n"
  proof -
    have "obj_eyes obj < limit h1" using allocatedD(1)[OF al] frame_limit[OF vp(1)] by simp
    from frame_readers(4)[OF dp(4) this] show ?thesis by (simp add: n_def)
  qed
  have n0: "n = length (eyes (car_of obj h))"
    using frame_readers(4)[OF vp(1) allocatedD(1)[OF al]] by (simp add: n_def car_of_def)
  obtain r2 h3 where ls: "rays_st obj vt p dists [0..<n] h2 = (r2, h3)"
    by (cases "rays_st obj vt p dists [0..<n] h2")
  have res: "get_surrounding_st obj p v h =
      (case (r2, h3) of (Some e, h) \<Rightarrow> (Inl e, h) | (None, h) \<Rightarrow> (Inr dists, h))"
    unfolding get_surrounding_st_def Let_def vs prod.case n_def[symmetric] da n2 ls by (rule refl)
  have f2: "frame h h2" using vp(1) dp(4) by (rule frame_trans)
  have dge: "limit h \<le> dists" using dp(1) frame_limit[OF vp(1)] by simp
  have vd: "vt \<noteq> dists" using vp(3) dp(1) by simp
  have t2: "tensor_at h2 vt = vision_tensor_of (car_of obj h) (arr2_at h p) (arr2_at h v)"
    using frame_readers(5)[OF dp(4) vp(3)] vp(4) by simp
  have d2: "arr1_at h2 dists = replicate n 0" by (rule reader_alloc(6)[OF da refl])
  note lp = rays_st_props[OF ls f2 al p dge vd distinct_upt, unfolded t2 d2]
  have f3: "frame h h3" using lp by blast
  have top3: "dists < limit h3" using dp(1,2) rays_st_limit[OF ls] by simp
  show "frame h h'" using res gs f3 by (cases r2) simp_all
  show "case r of
       Inl e \<Rightarrow> get_surrounding (car_of obj h) (arr2_at h p) (arr2_at h v) = Inl e
     | Inr d \<Rightarrow> limit h \<le> d \<and> d < limit h'
                \<and> get_surrounding (car_of obj h) (arr2_at h p) (arr2_at h v) = Inr (arr1_at h' d)"
  proof (cases r2)
    case (Some e)
    then have "r = Inl e" using res gs by simp
    moreover have "get_surrounding (car_of obj h) (arr2_at h p) (arr2_at h v) = Inl e"
      using lp Some by (simp add: get_surrounding_def n0)
    ultimately show ?thesis by simp
  next
    case None
    then have r: "r = Inr dists" and h': "h' = h3" using res gs by simp_all
    from lp[THEN conjunct2] None obtain xs where
      xs: "ray_loop (ray_distance (car_of obj h)
              (vision_tensor_of (car_of obj h) (arr2_at h p) (arr2_at h v)) (arr2_at h p)) [0..<n] = Inr xs"
      and len: "length (arr1_at h3 dists) = length (replicate n (0::real))"
      and wr0: "\<forall>j<length [0..<n]. [0..<n] ! j < length (replicate n (0::real))
                  \<longrightarrow> arr1_at h3 dists ! ([0..<n] ! j) = xs ! j"
      by (simp only: option.case) blast
    have wr: "\<forall>j<n. arr1_at h3 dists ! j = xs ! j"
    proof (intro allI impI)
      fix j assume j: "j < n"
      then have "j < length [0..<n]" "[0..<n] ! j = j" by simp_all
      with wr0 j show "arr1_at h3 dists ! j = xs ! j" by (metis length_replicate)
    qed
    have len: "length (arr1_at h3 dists) = n" using len by simp
    have "length xs = n" using ray_loop_Inr[OF xs] by simp
    then have "arr1_at h3 dists = xs" using len wr by (intro nth_equalityI) simp_all
    then have "get_surrounding (car_of obj h) (arr2_at h p) (arr2_at h v) = Inr (arr1_at h3 dists)"
      using xs by (simp add: get_surrounding_def n0)
    with r h' dge top3 show ?thesis by simp
  qed
qed

text \<open>
  C9. On the heap, \<open>get_surrounding\<close> allocates its arrays and writes only into two of them
  (\<open>vision_tensor\<close> by \<open>+=\<close>, \<open>dists\<close> by item assignment). Every array that existed before
  the call keeps its contents, so the car read from the heap after the call is the car read
  before it, also when the arguments are the car's own position and velocity arrays and also
  when the call raises; and the result is the one of the value-level \<open>get_surrounding\<close>.
\<close>

theorem sensing_read_only:
  assumes "allocated obj h" and "p < limit h" and "v < limit h"
    and "get_surrounding_st obj p v h = (r, h')"
  shows "(\<forall>a<limit h. cells h' a = cells h a)
       \<and> car_of obj h' = car_of obj h
       \<and> arr2_at h' p = arr2_at h p \<and> arr2_at h' v = arr2_at h v
       \<and> (case r of
            Inl e \<Rightarrow> get_surrounding (car_of obj h) (arr2_at h p) (arr2_at h v) = Inl e
          | Inr d \<Rightarrow> limit h \<le> d
                \<and> get_surrounding (car_of obj h) (arr2_at h p) (arr2_at h v) = Inr (arr1_at h' d))"
proof -
  note g = get_surrounding_st_props[OF assms(4,1,2,3)]
  have "\<forall>a<limit h. cells h' a = cells h a" using g(1) by (simp add: frame_def)
  moreover have "car_of obj h' = car_of obj h" by (rule car_of_frame[OF assms(1) g(1)])
  moreover have "arr2_at h' p = arr2_at h p" by (rule frame_readers(1)[OF g(1) assms(2)])
  moreover have "arr2_at h' v = arr2_at h v" by (rule frame_readers(1)[OF g(1) assms(3)])
  moreover have "case r of
            Inl e \<Rightarrow> get_surrounding (car_of obj h) (arr2_at h p) (arr2_at h v) = Inl e
          | Inr d \<Rightarrow> limit h \<le> d
                \<and> get_surrounding (car_of obj h) (arr2_at h p) (arr2_at h v) = Inr (arr1_at h' d)"
    using g(2) by (cases r) simp_all
  ultimately show ?thesis by blast
qed

lemma flat_obj_car: "car_of flat_obj flat_heap = flat_car (1, 0) (0, 0)"
  by (simp add: car_of_def flat_obj_def flat_heap_def flat_car_def flat_track_def
      rows_at_def arr1_at_def arr2_at_def zeros2_def)

lemma flat_obj_allocated: "allocated flat_obj flat_heap"
  by (simp add: allocated_def obj_addrs_def flat_obj_def flat_heap_def)

lemma flat_readings_start:
  "get_surrounding (flat_car (1, 0) (0, 0)) (1, 0) (0, 0) = Inr [1000, 1000, 1000, 1000]"
  unfolding get_surrounding_def flat_vision_tensor_at_rest
  by (simp add: ray_distance_def np_sub_def np_diff_def np_argwhere_def flat_car_def flat_track_def
        upt_small Let_def)

theorem sensing_read_only_witness:
  "allocated flat_obj flat_heap
   \<and> car_of flat_obj flat_heap = flat_car (1, 0) (0, 0)
   \<and> car_of flat_obj (snd (get_surrounding_st flat_obj 4 6 flat_heap)) = flat_car (1, 0) (0, 0)
   \<and> (\<exists>d. fst (get_surrounding_st flat_obj 4 6 flat_heap) = Inr d
         \<and> arr1_at (snd (get_surrounding_st flat_obj 4 6 flat_heap)) d = [1000, 1000, 1000, 1000])"
proof -
  define r where "r = fst (get_surrounding_st flat_obj 4 6 flat_heap)"
  define h' where "h' = snd (get_surrounding_st flat_obj 4 6 flat_heap)"
  have run: "get_surrounding_st flat_obj 4 6 flat_heap = (r, h')" by (simp add: r_def h'_def)
  have t: "4 < limit flat_heap" "6 < limit flat_heap" by (simp_all add: flat_heap_def)
  have pv: "arr2_at flat_heap 4 = (1, 0)" "arr2_at flat_heap 6 = (0, 0)"
    by (simp_all add: arr2_at_def flat_heap_def)
  note s = sensing_read_only [OF flat_obj_allocated t run]
  have c: "car_of flat_obj h' = flat_car (1, 0) (0, 0)" using s flat_obj_car by simp
  have "case r of
            Inl e \<Rightarrow> get_surrounding (flat_car (1, 0) (0, 0)) (1, 0) (0, 0) = Inl e
          | Inr d \<Rightarrow> limit flat_heap \<le> d
                \<and> get_surrounding (flat_car (1, 0) (0, 0)) (1, 0) (0, 0) = Inr (arr1_at h' d)"
    using s[unfolded flat_obj_car pv] by blast
  then have "\<exists>d. r = Inr d \<and> arr1_at h' d = [1000, 1000, 1000, 1000]"
    by (cases r) (simp_all add: flat_readings_start)
  with flat_obj_allocated flat_obj_car c show ?thesis
    by (simp add: r_def h'_def)
qed

end
